theory Spec2Isabelle
  imports Main "HOL-Library.Sublist"
begin

section \<open>Numbers and text\<close>

text \<open>
  File contents and log lines are JavaScript strings. A string is modelled as \<open>string\<close>,
  the list of the bytes of its UTF-8 form. Everything the code looks for in a text (the
  pattern, the digits, the newline) is ASCII, and in UTF-8 a byte below \<open>0x80\<close> is never
  part of a longer character: the pattern matches at the same places of the text, and
  \<open>substring\<close> cuts the same text, as on the UTF-16 code units of the source; only the
  number that an index is differs when characters outside ASCII stand before it. How the
  bytes of the file become text, and text bytes, is the section on bytes and text.
  Clock readings (\<open>Date.now()\<close>, milliseconds since the epoch) and the
  durations \<open>ttl\<close> and \<open>expireDuration\<close> (whole seconds) are natural numbers; every
  value \<open>Date.now()\<close> can return is an integer that a JavaScript number holds exactly,
  so arithmetic on them is integer arithmetic. An optional option is an \<open>option\<close>;
  \<open>truthy\<close> is JavaScript's test \<open>if (x)\<close> on an optional number and \<open>or_zero\<close> is
  \<open>x || 0\<close>.
\<close>

definition is_digit :: "char \<Rightarrow> bool" where
  "is_digit c = (48 \<le> (of_char c :: nat) \<and> (of_char c :: nat) \<le> 57)"

definition digit_char :: "nat \<Rightarrow> char" where
  "digit_char d = char_of (48 + d)"

definition digit_val :: "char \<Rightarrow> nat" where
  "digit_val c = of_char c - 48"

text \<open>The template literal \<open>`${n}`\<close> on a non-negative integer: its decimal digits.\<close>

fun show_nat :: "nat \<Rightarrow> string" where
  "show_nat n = (if n < 10 then [digit_char n] else show_nat (n div 10) @ [digit_char (n mod 10)])"

declare show_nat.simps [simp del]

definition digits_val :: "string \<Rightarrow> nat" where
  "digits_val ds = foldl (\<lambda>a c. 10 * a + digit_val c) 0 ds"

definition is_space :: "char \<Rightarrow> bool" where
  "is_space c = ((of_char c :: nat) \<in> {9, 10, 11, 12, 13, 32})"

text \<open>
  \<open>parseInt(s, 10)\<close>: leading white space is skipped, a sign is read, then the longest
  run of decimal digits; with no digit the result is \<open>NaN\<close>, here \<open>None\<close>. The result
  is only ever compared with \<open>expiryTimestamp\<close>, which a JavaScript number holds exactly,
  so the rounding of a very long run of digits does not change the comparison and the
  model keeps the exact integer.
\<close>

definition parseInt10 :: "string \<Rightarrow> int option" where
  "parseInt10 s =
     (let t = dropWhile is_space s;
          neg = (t \<noteq> [] \<and> hd t = CHR ''-'');
          u = (if t \<noteq> [] \<and> (hd t = CHR ''-'' \<or> hd t = CHR ''+'') then tl t else t);
          ds = takeWhile is_digit u
      in if ds = [] then None
         else Some (if neg then - int (digits_val ds) else int (digits_val ds)))"

definition truthy :: "nat option \<Rightarrow> bool" where
  "truthy x = (case x of None \<Rightarrow> False | Some n \<Rightarrow> n \<noteq> 0)"

definition or_zero :: "nat option \<Rightarrow> nat" where
  "or_zero x = (case x of None \<Rightarrow> 0 | Some n \<Rightarrow> n)"

section \<open>The Age Marker and its pattern\<close>

text \<open>The line \<open>onInterval\<close> appends: \<open>` ---------- TIMESTAMP: ${currentTime} ---------- `\<close>.\<close>

definition marker_line :: "nat \<Rightarrow> string" where
  "marker_line currentTime = '' ---------- TIMESTAMP: '' @ show_nat currentTime @ '' ---------- ''"

text \<open>
  The pattern \<open>/---------- TIMESTAMP: (\d+) ----------/\<close>. \<open>match_here s\<close> is the match that
  starts at the first character of \<open>s\<close>, as the whole matched text and the group: the
  fixed head, the longest run of digits (a shorter run is followed by a digit, never by
  the space the tail needs, so backtracking finds nothing more), and the fixed tail.
\<close>

definition re_head :: string where
  "re_head = ''---------- TIMESTAMP: ''"

definition re_tail :: string where
  "re_tail = '' ----------''"

definition match_here :: "string \<Rightarrow> (string \<times> string) option" where
  "match_here s =
     (if take (length re_head) s = re_head then
        (let ds = takeWhile is_digit (drop (length re_head) s)
         in if ds \<noteq> [] \<and> take (length re_tail) (drop (length re_head + length ds) s) = re_tail
            then Some (re_head @ ds @ re_tail, ds) else None)
      else None)"

text \<open>
  \<open>exec_from i s\<close> searches \<open>s\<close> from its first character for the leftmost match and
  reports it as (index, matched text, group), counting indices from \<open>i\<close>.
  \<open>exec_from 0 s\<close> is \<open>exec\<close> of a fresh regular expression (\<open>lastIndex = 0\<close>).
\<close>

fun exec_from :: "nat \<Rightarrow> string \<Rightarrow> (nat \<times> string \<times> string) option" where
  "exec_from i [] = None"
| "exec_from i (c # cs) =
     (case match_here (c # cs) of
        Some (w, g) \<Rightarrow> Some (i, w, g)
      | None \<Rightarrow> exec_from (Suc i) cs)"

text \<open>
  \<open>exec\<close> of a regular expression object with the \<open>g\<close> flag, whose state is
  \<open>lastIndex\<close>: the search starts there, a match moves \<open>lastIndex\<close> past it, a failure
  resets it to 0.
\<close>

definition exec_g :: "string \<Rightarrow> nat \<Rightarrow> (nat \<times> string \<times> string) option \<times> nat" where
  "exec_g s lastIndex =
     (case exec_from lastIndex (drop lastIndex s) of
        None \<Rightarrow> (None, 0)
      | Some (i, w, g) \<Rightarrow> (Some (i, w, g), i + length w))"

text \<open>\<open>timestamp > expiryTimestamp\<close>; a comparison with \<open>NaN\<close> is false.\<close>

definition newer :: "int option \<Rightarrow> int \<Rightarrow> bool" where
  "newer timestamp expiryTimestamp =
     (case timestamp of None \<Rightarrow> False | Some t \<Rightarrow> t > expiryTimestamp)"

lemma match_here_Some:
  assumes "match_here s = Some (w, g)"
  shows "w = re_head @ g @ re_tail" and "g \<noteq> []" and "take (length w) s = w"
    and "g = takeWhile is_digit (drop (length re_head) s)"
proof -
  from assms have h: "take (length re_head) s = re_head"
    and g: "g = takeWhile is_digit (drop (length re_head) s)"
    and ne: "g \<noteq> []"
    and t: "take (length re_tail) (drop (length re_head + length g) s) = re_tail"
    and w: "w = re_head @ g @ re_tail"
    by (auto simp: match_here_def Let_def split: if_splits)
  show "w = re_head @ g @ re_tail" by (rule w)
  show "g \<noteq> []" by (rule ne)
  show "g = takeWhile is_digit (drop (length re_head) s)" by (rule g)
  have pg: "take (length g) (drop (length re_head) s) = g"
    unfolding g by (metis append_eq_conv_conj takeWhile_dropWhile_id)
  have dd: "drop (length g) (drop (length re_head) s) = drop (length re_head + length g) s"
    by (simp add: add.commute)
  have "s = take (length re_head) s @ drop (length re_head) s"
    by simp
  also have "drop (length re_head) s
      = take (length g) (drop (length re_head) s) @ drop (length g) (drop (length re_head) s)"
    by (simp only: append_take_drop_id)
  also have "drop (length g) (drop (length re_head) s)
      = take (length re_tail) (drop (length re_head + length g) s)
        @ drop (length re_tail) (drop (length re_head + length g) s)"
    by (simp only: dd append_take_drop_id)
  finally have "s = re_head @ g @ re_tail @ drop (length re_tail) (drop (length re_head + length g) s)"
    by (simp only: h pg t)
  then have "s = w @ drop (length re_tail) (drop (length re_head + length g) s)"
    by (simp add: w)
  then show "take (length w) s = w"
    by (metis append_eq_conv_conj)
qed

lemma match_here_length:
  assumes "match_here s = Some (w, g)"
  shows "0 < length w" and "length w \<le> length s"
proof -
  from match_here_Some(1)[OF assms] show "0 < length w" by (simp add: re_head_def)
  from match_here_Some(3)[OF assms] have "length (take (length w) s) = length w" by simp
  then show "length w \<le> length s" by simp
qed

lemma exec_from_Some:
  "exec_from k s = Some (i, w, g) \<Longrightarrow>
     k \<le> i \<and> match_here (drop (i - k) s) = Some (w, g) \<and> i - k + length w \<le> length s"
proof (induction s arbitrary: k)
  case Nil
  then show ?case by simp
next
  case (Cons c cs)
  show ?case
  proof (cases "match_here (c # cs)")
    case None
    with Cons.prems have "exec_from (Suc k) cs = Some (i, w, g)" by simp
    from Cons.IH[OF this] have "Suc k \<le> i" and m: "match_here (drop (i - Suc k) cs) = Some (w, g)"
      and l: "i - Suc k + length w \<le> length cs" by auto
    from \<open>Suc k \<le> i\<close> have "i - k = Suc (i - Suc k)" by simp
    with m l \<open>Suc k \<le> i\<close> show ?thesis by simp
  next
    case (Some a)
    with Cons.prems have "a = (w, g)" and "i = k" by (auto split: prod.splits)
    with Some match_here_length(2)[of "c # cs" w g] show ?thesis by simp
  qed
qed

lemma exec_g_progress:
  assumes "exec_g content lastIndex = (Some (i, w, g), lastIndex')"
  shows "length content - lastIndex' < length content - lastIndex"
proof -
  from assms have ex: "exec_from lastIndex (drop lastIndex content) = Some (i, w, g)"
    and li: "lastIndex' = i + length w"
    by (auto simp: exec_g_def split: option.splits)
  from exec_from_Some[OF ex] have k: "lastIndex \<le> i"
    and m: "match_here (drop (i - lastIndex) (drop lastIndex content)) = Some (w, g)"
    and l: "i - lastIndex + length w \<le> length (drop lastIndex content)" by auto
  from match_here_length(1)[OF m] have "0 < length w" .
  with k l li show ?thesis
    by (simp del: length_greater_0_conv)
qed

section \<open>The scan of the maintenance cycle\<close>

text \<open>
  The Node implementation (both copies): a fresh pattern is run on \<open>chunk\<close> at every
  turn of the loop; a marker that is not newer than the cutoff is cut away together with
  everything before it, and the first newer one ends the loop with \<open>chunk\<close> starting at it.
\<close>

function scan_node :: "int \<Rightarrow> string \<Rightarrow> string" where
  "scan_node expiryTimestamp chunk =
     (case exec_from 0 chunk of
        None \<Rightarrow> chunk
      | Some (i, w, g) \<Rightarrow>
          if newer (parseInt10 g) expiryTimestamp then drop i chunk
          else scan_node expiryTimestamp (drop (i + length w) chunk))"
  by pat_completeness auto
termination
proof (relation "measure (\<lambda>(e, chunk). length chunk)", goal_cases)
  case 1
  show ?case by simp
next
  case (2 e chunk x i y w g)
  then have ex: "exec_from 0 chunk = Some (i, w, g)" by simp
  from exec_from_Some[OF ex] have m: "match_here (drop i chunk) = Some (w, g)"
    and l: "i + length w \<le> length chunk" by auto
  from match_here_length(1)[OF m] have "0 < length w" .
  with l have "length (drop (i + length w) chunk) < length chunk"
    by (simp del: length_greater_0_conv)
  then show ?case by simp
qed

declare scan_node.simps [simp del]

text \<open>
  The Deno implementation: one pattern object with the \<open>g\<close> flag walks over the unchanged
  \<open>content\<close>; \<open>chunk\<close> starts as the whole content and is replaced only when a marker
  newer than the cutoff is found.
\<close>

function deno_loop :: "int \<Rightarrow> string \<Rightarrow> nat \<Rightarrow> string \<Rightarrow> string" where
  "deno_loop expiryTimestamp content lastIndex chunk =
     (case exec_g content lastIndex of
        (None, _) \<Rightarrow> chunk
      | (Some (i, w, g), lastIndex') \<Rightarrow>
          if newer (parseInt10 g) expiryTimestamp then drop i content
          else deno_loop expiryTimestamp content lastIndex' chunk)"
  by pat_completeness auto
termination
  by (relation "measure (\<lambda>(e, content, lastIndex, chunk). length content - lastIndex)")
    (auto dest!: exec_g_progress[OF sym])

declare deno_loop.simps [simp del]

definition scan_deno :: "int \<Rightarrow> string \<Rightarrow> string" where
  "scan_deno expiryTimestamp content = deno_loop expiryTimestamp content 0 content"

definition expiryTimestamp :: "nat \<Rightarrow> nat option \<Rightarrow> int" where
  "expiryTimestamp now ttl = int now - int (or_zero ttl) * 1000"

section \<open>Bytes and text\<close>

text \<open>
  The file holds bytes. The cycle reads them as text, with
  \<open>fs.readFileSync(filepath).toString()\<close> in Node and \<open>Deno.readTextFile(filepath)\<close> in
  Deno, and writes text back, with \<open>fs.writeFileSync(filepath, chunk)\<close> and
  \<open>Deno.writeTextFile(filepath, chunk)\<close>; both directions are UTF-8. These functions
  belong to the runtime. Their decoding is the UTF-8 decoder of the Encoding Standard: a
  well-formed byte sequence is one character, and every maximal ill-formed part is read
  as the one character U+FFFD, nothing being rejected. \<open>utf8_lossy\<close> is that decoder, with
  its state: the number of bytes the current character still needs, the bounds for the
  next byte, and the bytes seen of the current character. It gives the text in UTF-8
  form: a character it accepts by its own bytes, U+FFFD by \<open>EF BF BD\<close>. A byte that
  cannot continue the current character ends it in error and is read again as the start
  of the next one.
\<close>

definition replacement :: string where
  "replacement = [CHR 0xEF, CHR 0xBF, CHR 0xBD]"

function utf8_lossy :: "nat \<Rightarrow> nat \<Rightarrow> nat \<Rightarrow> string \<Rightarrow> string \<Rightarrow> string" where
  "utf8_lossy needed lower upper seen [] = (if needed = 0 then [] else replacement)"
| "utf8_lossy needed lower upper seen (b # bs) =
     (let v = (of_char b :: nat) in
      if needed = 0 then
        (if v \<le> 0x7F then b # utf8_lossy 0 0x80 0xBF [] bs
         else if 0xC2 \<le> v \<and> v \<le> 0xDF then utf8_lossy 1 0x80 0xBF [b] bs
         else if 0xE0 \<le> v \<and> v \<le> 0xEF then
           utf8_lossy 2 (if v = 0xE0 then 0xA0 else 0x80) (if v = 0xED then 0x9F else 0xBF) [b] bs
         else if 0xF0 \<le> v \<and> v \<le> 0xF4 then
           utf8_lossy 3 (if v = 0xF0 then 0x90 else 0x80) (if v = 0xF4 then 0x8F else 0xBF) [b] bs
         else replacement @ utf8_lossy 0 0x80 0xBF [] bs)
      else if v < lower \<or> upper < v then replacement @ utf8_lossy 0 0x80 0xBF [] (b # bs)
      else if needed = 1 then seen @ [b] @ utf8_lossy 0 0x80 0xBF [] bs
      else utf8_lossy (needed - 1) 0x80 0xBF (seen @ [b]) bs)"
  by pat_completeness auto
termination
  by (relation "measure (\<lambda>(needed, lower, upper, seen, bs).
                           2 * length bs + (if needed = 0 then 0 else 1))")
    auto

declare utf8_lossy.simps [simp del]

text \<open>\<open>Buffer.toString()\<close>, whose default encoding is UTF-8, and \<open>Deno.readTextFile\<close>.\<close>

definition toString :: "string \<Rightarrow> string" where
  "toString bytes = utf8_lossy 0 0x80 0xBF [] bytes"

definition readTextFile :: "string \<Rightarrow> string" where
  "readTextFile bytes = utf8_lossy 0 0x80 0xBF [] bytes"

text \<open>
  The read, the scan and the write of \<open>onInterval\<close> on the bytes of the file: the bytes
  the file holds after the write. The text written is a part of the text decoded, cut
  next to a dash of the pattern if at all, so it holds no half of a character and no lone
  surrogate, and encoding it gives its UTF-8 form as it is.
\<close>

definition rewrite_node :: "int \<Rightarrow> string \<Rightarrow> string" where
  "rewrite_node cutoff bytes = scan_node cutoff (toString bytes)"

definition rewrite_deno :: "int \<Rightarrow> string \<Rightarrow> string" where
  "rewrite_deno cutoff bytes = scan_deno cutoff (readTextFile bytes)"

text \<open>
  Well-formed UTF-8, as the Unicode Standard tabulates it: one byte up to \<open>7F\<close>; a lead
  byte \<open>C2..DF\<close>, \<open>E0..EF\<close> or \<open>F0..F4\<close> with one, two or three continuation bytes
  \<open>80..BF\<close>, the first of them narrowed after \<open>E0\<close>, \<open>ED\<close>, \<open>F0\<close> and \<open>F4\<close> (no
  overlong form, no surrogate, nothing above U+10FFFF).
\<close>

definition in_range :: "nat \<Rightarrow> nat \<Rightarrow> char \<Rightarrow> bool" where
  "in_range lower upper c = (lower \<le> (of_char c :: nat) \<and> (of_char c :: nat) \<le> upper)"

fun well_formed :: "string \<Rightarrow> bool" where
  "well_formed [] = True"
| "well_formed (b # bs) =
     (let v = (of_char b :: nat) in
      if v \<le> 0x7F then well_formed bs
      else if 0xC2 \<le> v \<and> v \<le> 0xDF then
        (case bs of c # cs \<Rightarrow> in_range 0x80 0xBF c \<and> well_formed cs | _ \<Rightarrow> False)
      else if 0xE0 \<le> v \<and> v \<le> 0xEF then
        (case bs of
           c # d # ds \<Rightarrow>
             in_range (if v = 0xE0 then 0xA0 else 0x80) (if v = 0xED then 0x9F else 0xBF) c
             \<and> in_range 0x80 0xBF d \<and> well_formed ds
         | _ \<Rightarrow> False)
      else if 0xF0 \<le> v \<and> v \<le> 0xF4 then
        (case bs of
           c # d # e # es \<Rightarrow>
             in_range (if v = 0xF0 then 0x90 else 0x80) (if v = 0xF4 then 0x8F else 0xBF) c
             \<and> in_range 0x80 0xBF d \<and> in_range 0x80 0xBF e \<and> well_formed es
         | _ \<Rightarrow> False)
      else False)"

declare well_formed.simps(2) [simp del]

section \<open>The rotating file sink\<close>

text \<open>
  The sink and the part of the world it acts on (the file at \<open>filepath\<close>, the write
  handle, the interval timer) are one state, passed through every operation; the state
  keeps the file as its text. \<open>trace\<close>
  records the file-system and timer calls in the order they are made. Each call of
  \<open>Date.now()\<close> in \<open>onInterval\<close> is an argument of the model (\<open>currentTime\<close> for the
  marker, \<open>now\<close> for the cutoff); the constructor, which runs without waiting, reads the
  clock at one instant \<open>now\<close>. A failure inside \<open>onInterval\<close> is caught and reported by
  the source and leaves the state as it is.
\<close>

datatype event =
  Stat | Remove | Append string | ReadFile | Rewrite string | SetInterval | ClearInterval | Close

subsection \<open>Node implementation\<close>

text \<open>
  \<open>fs.Stats.birthtime\<close> is always a date. The write stream opens the file by itself after
  the constructor has returned (\<open>stream_opened\<close>), creating it when it is absent.
\<close>

record node_file =
  n_content :: string
  n_birthtime :: nat

record node_world =
  n_file :: "node_file option"
  n_stream_open :: bool
  n_interval :: bool
  n_trace :: "event list"

text \<open>
  \<open>logWriteStream.write\<close> returns before the text is in the file. For the marker that
  \<open>onInterval\<close> writes, \<open>landing\<close> says when it reaches the file: before
  \<open>readFileSync\<close>, between \<open>readFileSync\<close> and \<open>writeFileSync\<close> (which then
  overwrites it), or after \<open>writeFileSync\<close>. A stream that has been closed writes nothing.
\<close>

datatype landing = BeforeRead | BeforeRewrite | AfterRewrite

definition appendLog_node :: "string \<Rightarrow> string \<Rightarrow> node_world \<Rightarrow> node_world" where
  "appendLog_node separator log w =
     w\<lparr>n_file :=
         (if n_stream_open w
          then map_option (\<lambda>f. f\<lparr>n_content := n_content f @ log @ separator\<rparr>) (n_file w)
          else n_file w),
       n_trace := n_trace w @ [Append (log @ separator)]\<rparr>"

definition onInterval_node ::
  "landing \<Rightarrow> nat \<Rightarrow> nat \<Rightarrow> nat option \<Rightarrow> string \<Rightarrow> node_world \<Rightarrow> node_world" where
  "onInterval_node landing currentTime now ttl separator w =
     (case n_file w of
        None \<Rightarrow> w
      | Some f \<Rightarrow>
          (let line = marker_line currentTime @ separator;
               content = (if n_stream_open w \<and> landing = BeforeRead
                          then n_content f @ line else n_content f);
               chunk = scan_node (expiryTimestamp now ttl) content;
               written = (if n_stream_open w \<and> landing = AfterRewrite
                          then chunk @ line else chunk)
           in w\<lparr>n_file := Some (f\<lparr>n_content := written\<rparr>),
                n_trace := n_trace w @ [Append line, ReadFile, Rewrite chunk]\<rparr>))"

text \<open>
  The age check of the constructor. \<open>life = (Date.now() - birthtime) / 1000\<close> and
  \<open>life > expireDuration\<close> compare the same way as the milliseconds do.
\<close>

definition expire_check_node :: "nat option \<Rightarrow> nat \<Rightarrow> node_world \<Rightarrow> node_world" where
  "expire_check_node expireDuration now w =
     (if truthy expireDuration then
        (case n_file w of
           None \<Rightarrow> w
         | Some f \<Rightarrow>
             (if int now - int (n_birthtime f) > int (or_zero expireDuration) * 1000
              then w\<lparr>n_file := None, n_trace := n_trace w @ [Stat, Remove]\<rparr>
              else w\<lparr>n_trace := n_trace w @ [Stat]\<rparr>))
      else w)"

definition createFileLogger_node ::
  "nat option \<Rightarrow> nat option \<Rightarrow> string \<Rightarrow> landing \<Rightarrow> nat \<Rightarrow> node_world \<Rightarrow> node_world" where
  "createFileLogger_node expireDuration ttl separator landing now w =
     (let w1 = w\<lparr>n_stream_open := True\<rparr>;
          w2 = expire_check_node expireDuration now w1
      in if truthy ttl
         then onInterval_node landing now now ttl separator
                (w2\<lparr>n_interval := True, n_trace := n_trace w2 @ [SetInterval]\<rparr>)
         else w2)"

definition stream_opened :: "nat \<Rightarrow> node_world \<Rightarrow> node_world" where
  "stream_opened now w =
     (case n_file w of
        None \<Rightarrow> w\<lparr>n_file := Some \<lparr>n_content = [], n_birthtime = now\<rparr>\<rparr>
      | Some f \<Rightarrow> w)"

definition dispose_node :: "node_world \<Rightarrow> node_world" where
  "dispose_node w = w\<lparr>n_stream_open := False, n_trace := n_trace w @ [Close]\<rparr>"

text \<open>The interval timer fires: a live interval calls \<open>onInterval\<close>.\<close>

definition tick_node ::
  "landing \<Rightarrow> nat \<Rightarrow> nat \<Rightarrow> nat option \<Rightarrow> string \<Rightarrow> node_world \<Rightarrow> node_world" where
  "tick_node landing currentTime now ttl separator w =
     (if n_interval w then onInterval_node landing currentTime now ttl separator w else w)"

subsection \<open>Deno implementation\<close>

text \<open>
  \<open>Deno.FileInfo\<close> may lack \<open>birthtime\<close> and \<open>mtime\<close>. Every write is awaited, so the
  cycle is sequential. \<open>d_interval\<close> is the id of the live interval, if any; the runtime
  hands out the id \<open>setInterval\<close> returns.
\<close>

record deno_file =
  d_content :: string
  d_birthtime :: "nat option"
  d_mtime :: "nat option"

record deno_world =
  d_file :: "deno_file option"
  d_handle_open :: bool
  d_interval :: "nat option"
  d_trace :: "event list"

definition ensureFileSync :: "nat \<Rightarrow> deno_world \<Rightarrow> deno_world" where
  "ensureFileSync now w =
     (case d_file w of
        None \<Rightarrow> w\<lparr>d_file := Some \<lparr>d_content = [], d_birthtime = Some now, d_mtime = Some now\<rparr>\<rparr>
      | Some f \<Rightarrow> w)"

definition appendLog_deno :: "string \<Rightarrow> string \<Rightarrow> deno_world \<Rightarrow> deno_world" where
  "appendLog_deno separator log w =
     w\<lparr>d_file :=
         (if d_handle_open w
          then map_option (\<lambda>f. f\<lparr>d_content := d_content f @ log @ separator\<rparr>) (d_file w)
          else d_file w),
       d_trace := d_trace w @ [Append (log @ separator)]\<rparr>"

text \<open>
  A write through a closed writer is rejected: \<open>onInterval\<close> stops there and the error
  is reported by the caller.
\<close>

definition onInterval_deno ::
  "nat \<Rightarrow> nat \<Rightarrow> nat option \<Rightarrow> string \<Rightarrow> deno_world \<Rightarrow> deno_world" where
  "onInterval_deno currentTime now ttl separator w =
     (case d_file w of
        None \<Rightarrow> w
      | Some f \<Rightarrow>
          (let line = marker_line currentTime @ separator in
           if \<not> d_handle_open w then w\<lparr>d_trace := d_trace w @ [Append line]\<rparr>
           else
             (let content = d_content f @ line;
                  chunk = scan_deno (expiryTimestamp now ttl) content
              in w\<lparr>d_file := Some (f\<lparr>d_content := chunk\<rparr>),
                   d_trace := d_trace w @ [Append line, ReadFile, Rewrite chunk]\<rparr>)))"

definition expire_check_deno :: "nat option \<Rightarrow> nat \<Rightarrow> deno_world \<Rightarrow> deno_world" where
  "expire_check_deno expireDuration now w =
     (if truthy expireDuration then
        (case d_file w of
           None \<Rightarrow> w
         | Some f \<Rightarrow>
             (let birthtime =
                    (case d_birthtime f of
                       Some b \<Rightarrow> b
                     | None \<Rightarrow> (case d_mtime f of Some m \<Rightarrow> m | None \<Rightarrow> now))
              in if int now - int birthtime > int (or_zero expireDuration) * 1000
                 then w\<lparr>d_file := None, d_trace := d_trace w @ [Stat, Remove]\<rparr>
                 else w\<lparr>d_trace := d_trace w @ [Stat]\<rparr>))
      else w)"

text \<open>The constructor returns the sink's \<open>intervalId\<close> together with the state.\<close>

definition createFileLogger_deno ::
  "nat option \<Rightarrow> nat option \<Rightarrow> string \<Rightarrow> nat \<Rightarrow> nat \<Rightarrow> deno_world \<Rightarrow> nat option \<times> deno_world" where
  "createFileLogger_deno expireDuration ttl separator timerId now w =
     (let w1 = (ensureFileSync now w)\<lparr>d_handle_open := True\<rparr>;
          w2 = expire_check_deno expireDuration now w1
      in if truthy ttl
         then (Some timerId,
               onInterval_deno now now ttl separator
                 (w2\<lparr>d_interval := Some timerId, d_trace := d_trace w2 @ [SetInterval]\<rparr>))
         else (None, w2))"

definition clearInterval :: "nat \<Rightarrow> deno_world \<Rightarrow> deno_world" where
  "clearInterval timerId w =
     w\<lparr>d_interval := (if d_interval w = Some timerId then None else d_interval w),
       d_trace := d_trace w @ [ClearInterval]\<rparr>"

definition dispose_deno :: "nat option \<Rightarrow> deno_world \<Rightarrow> deno_world" where
  "dispose_deno intervalId w =
     (let w1 = (if truthy intervalId then clearInterval (or_zero intervalId) w else w)
      in w1\<lparr>d_handle_open := False, d_trace := d_trace w1 @ [Close]\<rparr>)"

definition tick_deno ::
  "nat \<Rightarrow> nat \<Rightarrow> nat option \<Rightarrow> string \<Rightarrow> deno_world \<Rightarrow> deno_world" where
  "tick_deno currentTime now ttl separator w =
     (if d_interval w \<noteq> None then onInterval_deno currentTime now ttl separator w else w)"

section \<open>The formatter\<close>

text \<open>
  \<open>util.format\<close> is outside the repository and is a parameter of the model, as is the
  rendering \<open>toISOString\<close>; a value handed to \<open>util.format\<close> is a string or a number.
\<close>

datatype val = Str string | Num int

datatype ts_mode = Epoch | Iso

fun split_on :: "char \<Rightarrow> string \<Rightarrow> string list" where
  "split_on c [] = [[]]"
| "split_on c (x # xs) =
     (if x = c then [] # split_on c xs
      else (case split_on c xs of [] \<Rightarrow> [[x]] | l # ls \<Rightarrow> (x # l) # ls))"

fun join_with :: "string \<Rightarrow> string list \<Rightarrow> string" where
  "join_with sep [] = []"
| "join_with sep [l] = l"
| "join_with sep (l # ls) = l @ sep @ join_with sep ls"

definition createStringifyLogger ::
  "(val list \<Rightarrow> string) \<Rightarrow> (nat \<Rightarrow> string) \<Rightarrow> bool \<Rightarrow> string option \<Rightarrow> ts_mode option
     \<Rightarrow> nat \<Rightarrow> string option \<Rightarrow> val list \<Rightarrow> string" where
  "createStringifyLogger format toISOString forEachLine addPrefix addTs now call_prefix args =
     (let logs0 = [format args];
          logs1 = (if forEachLine then split_on CHR 0x0A (format args) else logs0);
          logs2 = (case addPrefix of
                     Some p \<Rightarrow> if p \<noteq> [] then map (\<lambda>x. format [Str p, Str x]) logs1 else logs1
                   | None \<Rightarrow> logs1);
          logs3 = (case call_prefix of
                     Some q \<Rightarrow> if q \<noteq> [] then map (\<lambda>x. format [Str q, Str x]) logs2 else logs2
                   | None \<Rightarrow> logs2);
          logs4 = (case addTs of
                     Some Epoch \<Rightarrow>
                       (let epoch = int (now div 1000) in map (\<lambda>x. format [Num epoch, Str x]) logs3)
                   | Some Iso \<Rightarrow>
                       (let iso = toISOString now in map (\<lambda>x. format [Str iso, Str x]) logs3)
                   | None \<Rightarrow> logs3)
      in join_with [CHR 0x0A] logs4)"

section \<open>Age Marker occurrences\<close>

text \<open>
  The Age Marker occurrences of a text, in file order: the successive matches of the
  pattern, each searched to the right of the end of the one before, as a global scan of
  the text enumerates them (a place where the pattern would match inside an earlier match
  is not an occurrence). An occurrence is its start index, the index just after it, and
  the number its digits denote.
\<close>

datatype occ = Occ (start: nat) (stop: nat) (stamp: nat)

definition shift :: "nat \<Rightarrow> occ \<Rightarrow> occ" where
  "shift k m = Occ (start m + k) (stop m + k) (stamp m)"

function markers :: "string \<Rightarrow> occ list" where
  "markers s =
     (case exec_from 0 s of
        None \<Rightarrow> []
      | Some (i, w, g) \<Rightarrow>
          Occ i (i + length w) (digits_val g)
            # map (shift (i + length w)) (markers (drop (i + length w) s)))"
  by pat_completeness auto
termination
proof (relation "measure length", goal_cases)
  case 1
  show ?case by simp
next
  case (2 s x i y w g)
  then have ex: "exec_from 0 s = Some (i, w, g)" by simp
  from exec_from_Some[OF ex] have m: "match_here (drop i s) = Some (w, g)"
    and l: "i + length w \<le> length s" by auto
  from match_here_length(1)[OF m] have "0 < length w" .
  with l have "length (drop (i + length w) s) < length s"
    by (simp del: length_greater_0_conv)
  then show ?case by simp
qed

declare markers.simps [simp del]

definition fresh :: "int \<Rightarrow> occ \<Rightarrow> bool" where
  "fresh cutoff m = (int (stamp m) > cutoff)"

definition end_of :: "occ list \<Rightarrow> nat" where
  "end_of ms = (case ms of [] \<Rightarrow> 0 | _ \<Rightarrow> stop (last ms))"

section \<open>What the claims speak about\<close>

definition node_content :: "node_world \<Rightarrow> string option" where
  "node_content w = map_option n_content (n_file w)"

definition deno_content :: "deno_world \<Rightarrow> string option" where
  "deno_content w = map_option d_content (d_file w)"

definition is_check :: "event \<Rightarrow> bool" where
  "is_check ev = (ev = Stat \<or> ev = Remove)"

definition is_activity :: "event \<Rightarrow> bool" where
  "is_activity ev =
     (case ev of Append _ \<Rightarrow> True | ReadFile \<Rightarrow> True | Rewrite _ \<Rightarrow> True
               | SetInterval \<Rightarrow> True | _ \<Rightarrow> False)"

definition checked_once_first :: "event list \<Rightarrow> bool" where
  "checked_once_first tr =
     (length (filter (\<lambda>ev. ev = Stat) tr) \<le> 1
      \<and> length (filter (\<lambda>ev. ev = Remove) tr) \<le> 1
      \<and> filter is_check (dropWhile (\<lambda>ev. \<not> is_activity ev) tr) = [])"

definition too_old_node :: "nat option \<Rightarrow> nat \<Rightarrow> node_file \<Rightarrow> bool" where
  "too_old_node expireDuration now f =
     (int now - int (n_birthtime f) > int (or_zero expireDuration) * 1000)"

definition too_old_deno :: "nat option \<Rightarrow> nat \<Rightarrow> deno_file \<Rightarrow> bool" where
  "too_old_deno expireDuration now f =
     (case d_birthtime f of
        Some b \<Rightarrow> int now - int b > int (or_zero expireDuration) * 1000
      | None \<Rightarrow>
          (case d_mtime f of
             Some m \<Rightarrow> int now - int m > int (or_zero expireDuration) * 1000
           | None \<Rightarrow> False))"

definition with_prefix :: "(val list \<Rightarrow> string) \<Rightarrow> string option \<Rightarrow> string \<Rightarrow> string" where
  "with_prefix format p x =
     (case p of None \<Rightarrow> x | Some q \<Rightarrow> if q \<noteq> [] then format [Str q, Str x] else x)"

definition with_ts ::
  "(val list \<Rightarrow> string) \<Rightarrow> (nat \<Rightarrow> string) \<Rightarrow> ts_mode option \<Rightarrow> nat \<Rightarrow> string \<Rightarrow> string" where
  "with_ts format toISOString addTs now x =
     (case addTs of
        None \<Rightarrow> x
      | Some Epoch \<Rightarrow> format [Num (int (now div 1000)), Str x]
      | Some Iso \<Rightarrow> format [Str (toISOString now), Str x])"

fun includes_text :: "string \<Rightarrow> string \<Rightarrow> bool" where
  "includes_text [] p = (p = [])"
| "includes_text (c # cs) p = (take (length p) (c # cs) = p \<or> includes_text cs p)"

text \<open>
  The Age Marker occurrence that the line appended by \<open>onInterval\<close> is when the scan
  finds it: it starts behind the leading space of the line, which follows the text
  \<open>before\<close>, and carries the number \<open>currentTime\<close>.
\<close>

definition own_marker :: "string \<Rightarrow> nat \<Rightarrow> occ" where
  "own_marker before currentTime =
     Occ (length before + 1)
         (length before + 1 + length (re_head @ show_nat currentTime @ re_tail)) currentTime"

section \<open>Sample states and files\<close>

definition node_fresh :: "string \<Rightarrow> nat \<Rightarrow> node_world" where
  "node_fresh c b = \<lparr>n_file = Some \<lparr>n_content = c, n_birthtime = b\<rparr>, n_stream_open = False,
      n_interval = False, n_trace = []\<rparr>"

definition node_running :: "string \<Rightarrow> node_world" where
  "node_running c = \<lparr>n_file = Some \<lparr>n_content = c, n_birthtime = 0\<rparr>, n_stream_open = True,
      n_interval = True, n_trace = []\<rparr>"

definition deno_fresh :: "string \<Rightarrow> nat option \<Rightarrow> nat option \<Rightarrow> deno_world" where
  "deno_fresh c b m = \<lparr>d_file = Some \<lparr>d_content = c, d_birthtime = b, d_mtime = m\<rparr>,
      d_handle_open = False, d_interval = None, d_trace = []\<rparr>"

definition deno_running :: "string \<Rightarrow> deno_world" where
  "deno_running c = \<lparr>d_file = Some \<lparr>d_content = c, d_birthtime = None, d_mtime = None\<rparr>,
      d_handle_open = True, d_interval = Some 1, d_trace = []\<rparr>"

definition sample_log :: string where
  "sample_log = ''a\<newline> ---------- TIMESTAMP: 1000 ---------- \<newline>b\<newline> ---------- TIMESTAMP: 5000 ---------- \<newline>c\<newline>''"

definition torn_log :: string where
  "torn_log = ''boot\<newline> ---------- TIMESTAMP: 17''"

definition tie_log :: string where
  "tie_log = ''---------- TIMESTAMP: 1000 ---------- \<newline>line\<newline> ---------- TIMESTAMP: 61000 ---------- \<newline>''"

text \<open>A file that begins with a two-byte character (\<open>C3 A9\<close>, e with acute accent).\<close>

definition accented_log :: string where
  "accented_log = [CHR 0xC3, CHR 0xA9] @ ''\<newline> ---------- TIMESTAMP: 5000 ---------- \<newline>''"

section \<open>Digits and the pattern\<close>

lemma is_digit_not_space: "is_digit c \<Longrightarrow> \<not> is_space c"
  by (auto simp: is_digit_def is_space_def)

lemma is_digit_not_sign: "is_digit c \<Longrightarrow> c \<noteq> CHR ''-'' \<and> c \<noteq> CHR ''+''"
  by (auto simp: is_digit_def)

lemma parseInt10_digits:
  assumes "ds \<noteq> []" and "\<forall>c\<in>set ds. is_digit c"
  shows "parseInt10 ds = Some (int (digits_val ds))"
proof -
  from assms obtain c cs where ds: "ds = c # cs" by (cases ds) auto
  with assms have c: "is_digit c" by simp
  have 1: "dropWhile is_space ds = ds"
    using c is_digit_not_space ds by simp
  have 2: "takeWhile is_digit ds = ds"
    using assms(2) by (simp add: takeWhile_eq_all_conv)
  show ?thesis
    unfolding parseInt10_def 1 Let_def
    using is_digit_not_sign[OF c] assms(1) 2 by (simp add: ds)
qed

lemma match_here_group_digits:
  assumes "match_here s = Some (w, g)"
  shows "parseInt10 g = Some (int (digits_val g))"
proof -
  from match_here_Some(4)[OF assms] have "\<forall>c\<in>set g. is_digit c"
    by (metis set_takeWhileD)
  with match_here_Some(2)[OF assms] show ?thesis by (rule parseInt10_digits)
qed

lemma exec_from_group:
  assumes "exec_from k s = Some (i, w, g)"
  shows "newer (parseInt10 g) e = (int (digits_val g) > e)"
  using exec_from_Some[OF assms] match_here_group_digits by (auto simp: newer_def)

lemma exec_from_shift:
  "exec_from k s = map_option (\<lambda>(i, w, g). (i + k, w, g)) (exec_from 0 s)"
proof (induction s arbitrary: k)
  case Nil
  show ?case by simp
next
  case (Cons c cs)
  have "exec_from (Suc k) cs = map_option (\<lambda>(i, w, g). (i + Suc k, w, g)) (exec_from 0 cs)"
    by (rule Cons.IH)
  moreover have "exec_from (Suc 0) cs = map_option (\<lambda>(i, w, g). (i + Suc 0, w, g)) (exec_from 0 cs)"
    by (rule Cons.IH)
  ultimately show ?case
    by (cases "exec_from 0 cs") (auto split: option.splits)
qed

lemma is_digit_digit_char: "d < 10 \<Longrightarrow> is_digit (digit_char d)"
  by (simp add: is_digit_def digit_char_def)

lemma digit_val_digit_char: "d < 10 \<Longrightarrow> digit_val (digit_char d) = d"
  by (simp add: digit_val_def digit_char_def)

lemma show_nat_digits: "show_nat n \<noteq> [] \<and> (\<forall>c\<in>set (show_nat n). is_digit c)"
proof (induction n rule: show_nat.induct)
  case (1 n)
  show ?case
  proof (cases "n < 10")
    case True
    then show ?thesis by (simp add: show_nat.simps[of n] is_digit_digit_char)
  next
    case False
    with "1.IH" show ?thesis by (simp add: show_nat.simps[of n] is_digit_digit_char)
  qed
qed

lemma digits_val_snoc: "digits_val (ds @ [c]) = 10 * digits_val ds + digit_val c"
  by (simp add: digits_val_def)

lemma digits_val_show_nat: "digits_val (show_nat n) = n"
proof (induction n rule: show_nat.induct)
  case (1 n)
  show ?case
  proof (cases "n < 10")
    case True
    then show ?thesis by (simp add: show_nat.simps[of n] digits_val_def digit_val_digit_char)
  next
    case False
    with "1.IH" show ?thesis
      by (simp add: show_nat.simps[of n] digits_val_snoc digit_val_digit_char)
  qed
qed

lemma match_here_intro:
  assumes "g \<noteq> []" and "\<forall>c\<in>set g. is_digit c"
  shows "match_here (re_head @ g @ re_tail @ r) = Some (re_head @ g @ re_tail, g)"
proof -
  have nd: "\<not> is_digit (hd (re_tail @ r))" by (simp add: re_tail_def is_digit_def)
  have ne: "re_tail @ r \<noteq> []" by (simp add: re_tail_def)
  then obtain c cs where cs: "re_tail @ r = c # cs" by (cases "re_tail @ r") auto
  with nd have "\<not> is_digit c" by simp
  with assms(2) cs have tw: "takeWhile is_digit (g @ re_tail @ r) = g"
    by (simp add: takeWhile_append)
  show ?thesis
    unfolding match_here_def using assms(1) by (simp add: tw)
qed

lemma match_here_append:
  assumes "match_here s = Some (w, g)"
  shows "match_here (s @ x) = Some (w, g)"
proof -
  from match_here_Some(3)[OF assms] have "s = w @ drop (length w) s"
    by (metis append_take_drop_id)
  then have s: "s @ x = re_head @ g @ re_tail @ (drop (length w) s @ x)"
    using match_here_Some(1)[OF assms] by (metis append.assoc)
  from match_here_Some(4)[OF assms] have "\<forall>c\<in>set g. is_digit c"
    by (metis set_takeWhileD)
  from match_here_intro[OF match_here_Some(2)[OF assms] this]
  have "match_here (re_head @ g @ re_tail @ (drop (length w) s @ x)) = Some (re_head @ g @ re_tail, g)" .
  then have "match_here (s @ x) = Some (re_head @ g @ re_tail, g)"
    by (simp only: s)
  then show ?thesis
    by (simp only: match_here_Some(1)[OF assms])
qed

lemma match_here_space: "match_here (CHR '' '' # s) = None"
  by (simp add: match_here_def re_head_def)

lemma exec_marker_line:
  "exec_from 0 (marker_line n @ rest) = Some (1, re_head @ show_nat n @ re_tail, show_nat n)"
proof -
  have ml: "marker_line n @ rest = CHR '' '' # (re_head @ show_nat n @ re_tail @ (CHR '' '' # rest))"
    by (simp add: marker_line_def re_head_def re_tail_def)
  have "re_head @ show_nat n @ re_tail @ (CHR '' '' # rest) \<noteq> []" by (simp add: re_head_def)
  then obtain c cs where cs: "re_head @ show_nat n @ re_tail @ (CHR '' '' # rest) = c # cs"
    by (cases "re_head @ show_nat n @ re_tail @ (CHR '' '' # rest)") auto
  have "match_here (c # cs) = Some (re_head @ show_nat n @ re_tail, show_nat n)"
    unfolding cs[symmetric] using show_nat_digits[of n] by (intro match_here_intro) auto
  then have "exec_from 1 (c # cs) = Some (1, re_head @ show_nat n @ re_tail, show_nat n)"
    by simp
  then show ?thesis
    unfolding ml cs by (simp add: match_here_space)
qed

lemma exec_from_at_match:
  assumes "match_here s = Some (w, g)"
  shows "exec_from 0 s = Some (0, w, g)"
proof -
  from match_here_length[OF assms] have "s \<noteq> []" by auto
  then obtain c cs where "s = c # cs" by (cases s) auto
  with assms show ?thesis by simp
qed

section \<open>The scans in terms of the occurrences\<close>

lemma find_shift: "find (fresh e) (map (shift k) ms) = map_option (shift k) (find (fresh e) ms)"
  by (induction ms) (auto simp: fresh_def shift_def)

lemma end_of_Cons_shift:
  "end_of (Occ i k t # map (shift k) ms) = end_of ms + k"
  by (cases ms) (auto simp: end_of_def shift_def last_map)

lemma scan_node_markers:
  "scan_node e s =
     (case find (fresh e) (markers s) of
        Some m \<Rightarrow> drop (start m) s
      | None \<Rightarrow> drop (end_of (markers s)) s)"
proof (induction s rule: markers.induct)
  case (1 s)
  show ?case
  proof (cases "exec_from 0 s")
    case None
    then show ?thesis
      by (simp add: scan_node.simps[of e s] markers.simps[of s] end_of_def)
  next
    case (Some a)
    obtain i w g where a: "a = (i, w, g)" by (cases a) auto
    note ex = Some[unfolded a]
    note nw = exec_from_group[OF ex, of e]
    let ?k = "i + length w"
    have ms: "markers s = Occ i ?k (digits_val g) # map (shift ?k) (markers (drop ?k s))"
      by (simp add: markers.simps[of s] ex)
    show ?thesis
    proof (cases "int (digits_val g) > e")
      case True
      then show ?thesis
        by (simp add: scan_node.simps[of e s] ex nw ms fresh_def)
    next
      case False
      have sn: "scan_node e s = scan_node e (drop ?k s)"
        using False by (simp add: scan_node.simps[of e s] ex nw)
      have ih: "scan_node e (drop ?k s) =
         (case find (fresh e) (markers (drop ?k s)) of
            Some m \<Rightarrow> drop (start m) (drop ?k s)
          | None \<Rightarrow> drop (end_of (markers (drop ?k s))) (drop ?k s))"
        by (rule "1.IH"[OF ex refl refl])
      have fd: "find (fresh e) (markers s) = map_option (shift ?k) (find (fresh e) (markers (drop ?k s)))"
        using False by (simp add: ms fresh_def find_shift)
      have eo: "end_of (markers s) = end_of (markers (drop ?k s)) + ?k"
        by (simp only: ms end_of_Cons_shift)
      show ?thesis
        unfolding sn ih fd eo
        by (auto simp: shift_def split: option.splits)
    qed
  qed
qed

lemma deno_loop_markers:
  "deno_loop e content L chunk =
     (case find (fresh e) (markers (drop L content)) of
        Some m \<Rightarrow> drop (start m + L) content
      | None \<Rightarrow> chunk)"
proof (induction "drop L content" arbitrary: L rule: markers.induct)
  case 1
  show ?case
  proof (cases "exec_from 0 (drop L content)")
    case None
    then have "exec_g content L = (None, 0)"
      by (simp add: exec_g_def exec_from_shift[of L])
    with None show ?thesis
      by (simp add: deno_loop.simps[of e content L] markers.simps[of "drop L content"])
  next
    case (Some a)
    obtain i w g where a: "a = (i, w, g)" by (cases a) auto
    note ex = Some[unfolded a]
    note nw = exec_from_group[OF ex, of e]
    let ?k = "i + length w"
    have eg: "exec_g content L = (Some (i + L, w, g), ?k + L)"
      by (simp add: exec_g_def exec_from_shift[of L] ex)
    have ms: "markers (drop L content)
        = Occ i ?k (digits_val g) # map (shift ?k) (markers (drop (?k + L) content))"
      by (simp add: markers.simps[of "drop L content"] ex)
    show ?thesis
    proof (cases "int (digits_val g) > e")
      case True
      then show ?thesis
        by (simp add: deno_loop.simps[of e content L] eg nw ms fresh_def)
    next
      case False
      have dl: "deno_loop e content L chunk = deno_loop e content (?k + L) chunk"
        using False by (simp add: deno_loop.simps[of e content L] eg nw)
      have ih: "deno_loop e content (?k + L) chunk =
         (case find (fresh e) (markers (drop (?k + L) content)) of
            Some m \<Rightarrow> drop (start m + (?k + L)) content
          | None \<Rightarrow> chunk)"
        by (rule "1.hyps"[OF ex refl refl]) simp
      have fd: "find (fresh e) (markers (drop L content))
          = map_option (shift ?k) (find (fresh e) (markers (drop (?k + L) content)))"
        using False by (simp add: ms fresh_def find_shift)
      show ?thesis
        unfolding dl ih fd
        by (auto simp: shift_def add.assoc split: option.splits)
    qed
  qed
qed

lemma scan_deno_markers:
  "scan_deno e s = (case find (fresh e) (markers s) of Some m \<Rightarrow> drop (start m) s | None \<Rightarrow> s)"
  by (simp add: scan_deno_def deno_loop_markers split: option.splits)

lemma find_first:
  assumes "\<forall>x\<in>set xs. \<not> P x" and "P m"
  shows "find P (xs @ m # ys) = Some m"
  using assms by (induction xs) auto

lemma find_none: "(\<forall>x\<in>set xs. \<not> P x) \<Longrightarrow> find P xs = None"
  by (induction xs) auto

lemma shift_shift: "shift a (shift b m) = shift (b + a) m"
  by (simp add: shift_def add.assoc)

lemma stamp_shift: "stamp (shift k m) = stamp m"
  by (simp add: shift_def)

lemma markers_Some:
  assumes "exec_from 0 s = Some (i, w, g)"
  shows "markers s = Occ i (i + length w) (digits_val g)
           # map (shift (i + length w)) (markers (drop (i + length w) s))"
  by (simp add: markers.simps[of s] assms)

lemma markers_None: "exec_from 0 s = None \<Longrightarrow> markers s = []"
  by (simp add: markers.simps[of s])

lemma markers_at_start:
  assumes "exec_from 0 s = Some (i, w, g)"
  shows "map (shift i) (markers (drop i s)) = markers s"
proof -
  from exec_from_Some[OF assms] have "match_here (drop i s) = Some (w, g)" by simp
  then have "exec_from 0 (drop i s) = Some (0, w, g)" by (rule exec_from_at_match)
  then have "markers (drop i s) = Occ 0 (length w) (digits_val g)
           # map (shift (length w)) (markers (drop (length w) (drop i s)))"
    using markers_Some[of "drop i s" 0 w g] by simp
  then show ?thesis
    by (simp add: markers_Some[OF assms] shift_def add.commute)
qed

lemma markers_nth_drop:
  "n < length (markers s) \<Longrightarrow>
     map (shift (start (markers s ! n))) (markers (drop (start (markers s ! n)) s))
       = drop n (markers s)"
proof (induction n arbitrary: s)
  case 0
  then have "markers s \<noteq> []" by auto
  then obtain i w g where ex: "exec_from 0 s = Some (i, w, g)"
    by (cases "exec_from 0 s") (auto simp: markers_None)
  have "start (markers s ! 0) = i" by (simp add: markers_Some[OF ex])
  then show ?case using markers_at_start[OF ex] by simp
next
  case (Suc n)
  then have "markers s \<noteq> []" by auto
  then obtain i w g where ex: "exec_from 0 s = Some (i, w, g)"
    by (cases "exec_from 0 s") (auto simp: markers_None)
  let ?k = "i + length w"
  let ?ms = "markers (drop ?k s)"
  note ms = markers_Some[OF ex]
  from Suc.prems have n: "n < length ?ms" by (simp add: ms)
  have st: "start (markers s ! Suc n) = start (?ms ! n) + ?k"
    using n by (simp add: ms shift_def)
  have ih: "map (shift (start (?ms ! n))) (markers (drop (start (?ms ! n)) (drop ?k s))) = drop n ?ms"
    by (rule Suc.IH[OF n])
  have "map (shift (start (?ms ! n) + ?k)) (markers (drop (start (?ms ! n) + ?k) s))
      = map (shift ?k) (map (shift (start (?ms ! n))) (markers (drop (start (?ms ! n)) (drop ?k s))))"
    by (simp add: shift_shift)
  also have "\<dots> = map (shift ?k) (drop n ?ms)" by (simp only: ih)
  also have "\<dots> = drop (Suc n) (markers s)" by (simp add: ms drop_map)
  finally show ?case by (simp only: st)
qed

lemma markers_after_last: "markers (drop (end_of (markers s)) s) = []"
proof (induction s rule: markers.induct)
  case (1 s)
  show ?case
  proof (cases "exec_from 0 s")
    case None
    then show ?thesis by (simp add: markers_None end_of_def)
  next
    case (Some a)
    obtain i w g where a: "a = (i, w, g)" by (cases a) auto
    note ex = Some[unfolded a]
    have "end_of (markers s) = end_of (markers (drop (i + length w) s)) + (i + length w)"
      by (simp only: markers_Some[OF ex] end_of_Cons_shift)
    then show ?thesis
      using "1.IH"[OF ex refl refl] by (simp add: add.commute)
  qed
qed

lemma find_fresh_cut:
  assumes "find (fresh e) (markers c) = Some m"
  obtains n where "n < length (markers c)" and "markers c ! n = m" and "fresh e m"
    and "\<forall>j<n. \<not> fresh e (markers c ! j)"
    and "map (shift (start m)) (markers (drop (start m) c)) = drop n (markers c)"
proof -
  from assms obtain n where n: "n < length (markers c)" and m: "m = markers c ! n"
    and f: "fresh e m" and b: "\<forall>j<n. \<not> fresh e (markers c ! j)"
    by (auto simp: find_Some_iff)
  from markers_nth_drop[OF n] m
  have "map (shift (start m)) (markers (drop (start m) c)) = drop n (markers c)" by simp
  with n m f b that show ?thesis by blast
qed

lemma shift_eq_start0:
  assumes "map (shift k) xs = m # ys"
  obtains x xs' where "xs = x # xs'" and "start x + k = start m" and "stamp x = stamp m"
  using assms by (cases xs) (auto simp: shift_def)

lemma filter_sorted_cut:
  fixes xs :: "nat list"
  assumes "sorted xs" and "n < length xs" and "int (xs ! n) > e"
    and "\<forall>j<n. \<not> int (xs ! j) > e"
  shows "filter (\<lambda>t. int t > e) xs = drop n xs"
proof -
  have a: "filter (\<lambda>t. int t > e) (take n xs) = []"
  proof -
    have "\<forall>t\<in>set (take n xs). \<not> int t > e"
    proof
      fix t assume "t \<in> set (take n xs)"
      then obtain j where "j < length (take n xs)" and "take n xs ! j = t"
        by (auto simp: in_set_conv_nth)
      with assms(2,4) show "\<not> int t > e" by auto
    qed
    then show ?thesis by (simp add: filter_empty_conv)
  qed
  have b: "filter (\<lambda>t. int t > e) (drop n xs) = drop n xs"
  proof -
    have "\<forall>t\<in>set (drop n xs). int t > e"
    proof
      fix t assume "t \<in> set (drop n xs)"
      then obtain j where j: "j < length (drop n xs)" and t: "drop n xs ! j = t"
        by (auto simp: in_set_conv_nth)
      from j have "n + j < length xs" by simp
      with assms(1) have "xs ! n \<le> xs ! (n + j)" by (simp add: sorted_nth_mono)
      with assms(3) t j show "int t > e" by simp
    qed
    then show ?thesis by simp
  qed
  have "filter (\<lambda>t. int t > e) xs = filter (\<lambda>t. int t > e) (take n xs @ drop n xs)" by simp
  also have "\<dots> = drop n xs" unfolding filter_append a b by simp
  finally show ?thesis .
qed

lemma retention_none:
  assumes "find (fresh e) (markers c) = None"
  shows "markers (scan_node e c) = []"
    and "filter (\<lambda>t. int t > e) (map stamp (markers c)) = []"
proof -
  from assms show "markers (scan_node e c) = []"
    by (simp add: scan_node_markers markers_after_last)
  from assms have "\<forall>m\<in>set (markers c). \<not> fresh e m" by (auto simp: find_None_iff)
  then show "filter (\<lambda>t. int t > e) (map stamp (markers c)) = []"
    by (auto simp: filter_empty_conv fresh_def)
qed

lemma retention_some:
  assumes f: "find (fresh e) (markers c) = Some m" and s: "sorted (map stamp (markers c))"
  shows "scan_node e c = drop (start m) c" and "scan_deno e c = drop (start m) c"
    and "map stamp (markers (drop (start m) c)) = filter (\<lambda>t. int t > e) (map stamp (markers c))"
    and "markers (drop (start m) c) \<noteq> [] \<and> start (hd (markers (drop (start m) c))) = 0"
proof -
  from f show "scan_node e c = drop (start m) c" by (simp add: scan_node_markers)
  from f show "scan_deno e c = drop (start m) c" by (simp add: scan_deno_markers)
  from f obtain n where n: "n < length (markers c)" and m: "markers c ! n = m"
    and fm: "fresh e m" and b: "\<forall>j<n. \<not> fresh e (markers c ! j)"
    and d: "map (shift (start m)) (markers (drop (start m) c)) = drop n (markers c)"
    by (rule find_fresh_cut)
  have "map stamp (markers (drop (start m) c))
      = map stamp (map (shift (start m)) (markers (drop (start m) c)))"
    by (simp add: stamp_shift)
  also have "\<dots> = drop n (map stamp (markers c))" by (simp only: d drop_map)
  also have "\<dots> = filter (\<lambda>t. int t > e) (map stamp (markers c))"
  proof (rule filter_sorted_cut[symmetric])
    show "sorted (map stamp (markers c))" by (rule s)
    show "n < length (map stamp (markers c))" using n by simp
    show "int (map stamp (markers c) ! n) > e" using n m fm by (simp add: fresh_def)
    show "\<forall>j<n. \<not> int (map stamp (markers c) ! j) > e" using n b by (simp add: fresh_def)
  qed
  finally show "map stamp (markers (drop (start m) c))
      = filter (\<lambda>t. int t > e) (map stamp (markers c))" .
  from n m have "drop n (markers c) = m # drop (Suc n) (markers c)"
    by (metis Cons_nth_drop_Suc)
  with d have "map (shift (start m)) (markers (drop (start m) c)) = m # drop (Suc n) (markers c)"
    by simp
  then obtain x xs where "markers (drop (start m) c) = x # xs" and "start x + start m = start m"
    by (rule shift_eq_start0)
  then show "markers (drop (start m) c) \<noteq> [] \<and> start (hd (markers (drop (start m) c))) = 0"
    by simp
qed

lemma nth_in_set_drop:
  assumes "n \<le> i" and "i < length xs" and "xs ! i = m"
  shows "m \<in> set (drop n xs)"
proof -
  from assms(1,2) have "i - n < length (drop n xs)" by simp
  moreover from assms have "drop n xs ! (i - n) = m" by simp
  ultimately show ?thesis by (metis nth_mem)
qed

lemma first_newer_at_start:
  assumes "find (fresh e) (markers c) = Some m"
  obtains w g where "exec_from 0 (drop (start m) c) = Some (0, w, g)"
    and "newer (parseInt10 g) e"
proof -
  from assms obtain n where n: "n < length (markers c)" and m: "markers c ! n = m"
    and fm: "fresh e m"
    and d: "map (shift (start m)) (markers (drop (start m) c)) = drop n (markers c)"
    by (rule find_fresh_cut)
  from n m have "drop n (markers c) = m # drop (Suc n) (markers c)"
    by (metis Cons_nth_drop_Suc)
  with d have "map (shift (start m)) (markers (drop (start m) c)) = m # drop (Suc n) (markers c)"
    by simp
  then obtain x xs where xs: "markers (drop (start m) c) = x # xs"
    and st: "start x + start m = start m" and sp: "stamp x = stamp m"
    by (rule shift_eq_start0)
  from xs obtain i w g where ex: "exec_from 0 (drop (start m) c) = Some (i, w, g)"
    by (cases "exec_from 0 (drop (start m) c)") (auto simp: markers_None)
  from xs markers_Some[OF ex] have "x = Occ i (i + length w) (digits_val g)" by simp
  with st sp have "i = 0" and "digits_val g = stamp m" by simp_all
  with fm exec_from_group[OF ex, of e] ex that show ?thesis by (simp add: fresh_def)
qed

lemma scan_keeps_leading_newer:
  assumes "exec_from 0 s = Some (0, w, g)" and "newer (parseInt10 g) e"
  shows "scan_node e (s @ x) = s @ x" and "scan_deno e (s @ x) = s @ x"
proof -
  from exec_from_Some[OF assms(1)] have "match_here s = Some (w, g)" by simp
  then have "match_here (s @ x) = Some (w, g)" by (rule match_here_append)
  then have ex: "exec_from 0 (s @ x) = Some (0, w, g)" by (rule exec_from_at_match)
  show "scan_node e (s @ x) = s @ x"
    by (simp add: scan_node.simps[of e "s @ x"] ex assms(2))
  have "exec_g (s @ x) 0 = (Some (0, w, g), length w)"
    by (simp add: exec_g_def ex)
  then show "scan_deno e (s @ x) = s @ x"
    by (simp add: scan_deno_def deno_loop.simps[of e "s @ x" 0] assms(2))
qed

lemma second_scan:
  assumes "find (fresh e) (markers c) = Some m"
  shows "scan_node e (scan_node e c @ x) = scan_node e c @ x"
    and "scan_deno e (scan_deno e c @ x) = scan_deno e c @ x"
proof -
  from assms obtain w g where ex: "exec_from 0 (drop (start m) c) = Some (0, w, g)"
    and nw: "newer (parseInt10 g) e" by (rule first_newer_at_start)
  from assms have "scan_node e c = drop (start m) c" and "scan_deno e c = drop (start m) c"
    by (simp_all add: scan_node_markers scan_deno_markers)
  with scan_keeps_leading_newer[OF ex nw, of x]
  show "scan_node e (scan_node e c @ x) = scan_node e c @ x"
    and "scan_deno e (scan_deno e c @ x) = scan_deno e c @ x" by simp_all
qed

lemma match_here_Nil: "match_here [] = None"
  by (simp add: match_here_def re_head_def)

lemma exec_from_leftmost:
  assumes "match_here (drop j s) = Some (w, g)"
  shows "\<exists>i w' g'. exec_from k s = Some (k + i, w', g') \<and> i \<le> j \<and> (i = j \<longrightarrow> w' = w \<and> g' = g)"
  using assms
proof (induction s arbitrary: j k)
  case Nil
  then show ?case by (simp add: match_here_Nil)
next
  case (Cons c cs)
  show ?case
  proof (cases "match_here (c # cs)")
    case (Some a)
    obtain w' g' where a: "a = (w', g')" by (cases a) auto
    have "exec_from k (c # cs) = Some (k + 0, w', g')" using Some a by simp
    moreover have "0 = j \<longrightarrow> w' = w \<and> g' = g" using Cons.prems Some a by auto
    ultimately show ?thesis by blast
  next
    case None
    with Cons.prems obtain j' where j: "j = Suc j'" by (cases j) auto
    with Cons.prems have "match_here (drop j' cs) = Some (w, g)" by simp
    from Cons.IH[OF this, of "Suc k"] obtain i w' g' where
      "exec_from (Suc k) cs = Some (Suc k + i, w', g')" and "i \<le> j'"
      and "i = j' \<longrightarrow> w' = w \<and> g' = g" by blast
    then have "exec_from k (c # cs) = Some (k + Suc i, w', g')" and "Suc i \<le> j"
      and "Suc i = j \<longrightarrow> w' = w \<and> g' = g"
      using None j by auto
    then show ?thesis by blast
  qed
qed

lemma re_head_split2:
  assumes "re_head @ x = u @ CHR '' '' # CHR ''-'' # z"
  shows "(\<exists>u'. u = re_head @ u' \<and> x = u' @ CHR '' '' # CHR ''-'' # z)
       \<or> (u @ [CHR '' ''] = re_head \<and> x = CHR ''-'' # z)"
  using assms by (auto simp: re_head_def Cons_eq_append_conv append_eq_Cons_conv)

lemma re_tail_split:
  assumes "re_tail = ws @ CHR '' '' # CHR ''-'' # z"
  shows "ws = []"
  using assms by (auto simp: re_tail_def Cons_eq_append_conv)

lemma not_digit_space: "\<not> is_digit CHR '' ''"
  by (simp add: is_digit_def)

lemma not_digit_dash: "\<not> is_digit CHR ''-''"
  by (simp add: is_digit_def)

lemma digits_split:
  assumes "g @ re_tail = u' @ CHR '' '' # CHR ''-'' # z" and "\<forall>c\<in>set g. is_digit c"
  shows "u' = g"
proof -
  from assms(1) obtain ws where
    "(g = u' @ ws \<and> ws @ re_tail = CHR '' '' # CHR ''-'' # z)
     \<or> (g @ ws = u' \<and> re_tail = ws @ CHR '' '' # CHR ''-'' # z)"
    unfolding append_eq_append_conv2 by blast
  then show ?thesis
  proof
    assume a: "g = u' @ ws \<and> ws @ re_tail = CHR '' '' # CHR ''-'' # z"
    show ?thesis
    proof (cases ws)
      case Nil
      with a show ?thesis by simp
    next
      case (Cons c cs)
      with a have "c = CHR '' ''" by simp
      with a Cons assms(2) not_digit_space show ?thesis by auto
    qed
  next
    assume b: "g @ ws = u' \<and> re_tail = ws @ CHR '' '' # CHR ''-'' # z"
    then have "ws = []" using re_tail_split by blast
    with b show ?thesis by simp
  qed
qed

lemma last_re_tail: "last (re_head @ g @ re_tail) = CHR ''-''"
  by (simp add: re_tail_def)

lemma no_overlap:
  assumes m: "match_here (u @ CHR '' '' # CHR ''-'' # x) = Some (w, g)"
    and nd: "u = [] \<or> \<not> is_digit (last u)"
  shows "length w \<le> length u"
proof (rule ccontr)
  assume "\<not> length w \<le> length u"
  then have lw: "length u < length w" by simp
  note w = match_here_Some(1)[OF m]
  note gne = match_here_Some(2)[OF m]
  from match_here_Some(4)[OF m] have gd: "\<forall>c\<in>set g. is_digit c"
    by (metis set_takeWhileD)
  from match_here_Some(3)[OF m] lw
  have tw: "w = u @ take (length w - length u) (CHR '' '' # CHR ''-'' # x)"
    by simp
  obtain n where n: "length w - length u = Suc n" using lw by (cases "length w - length u") auto
  have "n \<noteq> 0"
  proof
    assume "n = 0"
    with tw n have "w = u @ [CHR '' '']" by simp
    then have "last w = CHR '' ''" by simp
    with w last_re_tail[of g] show False by simp
  qed
  then obtain n' where n': "n = Suc n'" by (cases n) auto
  from tw n n' have "w = u @ CHR '' '' # CHR ''-'' # take n' x" by simp
  with w have e: "re_head @ (g @ re_tail) = u @ CHR '' '' # CHR ''-'' # take n' x" by simp
  from re_head_split2[OF e] show False
  proof
    assume "\<exists>u'. u = re_head @ u' \<and> g @ re_tail = u' @ CHR '' '' # CHR ''-'' # take n' x"
    then obtain u' where u: "u = re_head @ u'"
      and g: "g @ re_tail = u' @ CHR '' '' # CHR ''-'' # take n' x" by blast
    from digits_split[OF g gd] have "u' = g" .
    with u gne have "u \<noteq> []" and "last u = last g" by simp_all
    moreover from gne gd have "is_digit (last g)" by simp
    ultimately show False using nd by simp
  next
    assume "u @ [CHR '' ''] = re_head \<and> g @ re_tail = CHR ''-'' # take n' x"
    then have "hd g = CHR ''-''" using gne by (cases g) auto
    moreover from gne gd have "is_digit (hd g)" by simp
    ultimately show False using not_digit_dash by simp
  qed
qed

text \<open>
  When the text before the appended marker line is empty or does not end in a digit (it
  ends in the separator after any line written with the default newline separator), the
  scan finds the appended marker: it is an Age Marker occurrence of the content.
\<close>

lemma appended_marker_is_occurrence:
  assumes "pre = [] \<or> \<not> is_digit (last pre)"
  shows "Occ (length pre + 1) (length pre + 1 + length (re_head @ show_nat now @ re_tail)) now
           \<in> set (markers (pre @ marker_line now @ rest))"
  using assms
proof (induction "length pre" arbitrary: pre rule: less_induct)
  case less
  let ?M = "re_head @ show_nat now @ re_tail"
  let ?r = "CHR '' '' # rest"
  let ?s = "pre @ marker_line now @ rest"
  have s: "?s = pre @ CHR '' '' # ?M @ ?r"
    by (simp add: marker_line_def re_head_def re_tail_def)
  have M0: "?M @ ?r = CHR ''-'' # tl (?M @ ?r)" by (simp add: re_head_def)
  have mM: "match_here (?M @ ?r) = Some (?M, show_nat now)"
    using match_here_intro[of "show_nat now" ?r] show_nat_digits[of now] by simp
  have "drop (length pre + 1) ?s = ?M @ ?r" by (simp add: s)
  with mM have "match_here (drop (length pre + 1) ?s) = Some (?M, show_nat now)" by simp
  from exec_from_leftmost[OF this, of 0] obtain i w g where
    ex: "exec_from 0 ?s = Some (i, w, g)" and il: "i \<le> length pre + 1"
    and ieq: "i = length pre + 1 \<longrightarrow> w = ?M \<and> g = show_nat now" by auto
  note ms = markers_Some[OF ex]
  show ?case
  proof (cases "i = length pre + 1")
    case True
    with ieq ms show ?thesis by (simp add: digits_val_show_nat)
  next
    case False
    with il have i: "i \<le> length pre" by simp
    from exec_from_Some[OF ex] have mh: "match_here (drop i ?s) = Some (w, g)" by simp
    have ds: "drop i ?s = drop i pre @ CHR '' '' # CHR ''-'' # tl (?M @ ?r)"
      using i M0 by (simp add: s)
    have nd: "drop i pre = [] \<or> \<not> is_digit (last (drop i pre))"
      using less.prems by (cases "drop i pre = []") auto
    from no_overlap[OF mh[unfolded ds] nd] have wl: "length w \<le> length pre - i" by simp
    let ?k = "i + length w"
    from wl i have k: "?k \<le> length pre" by simp
    from match_here_length(1)[OF mh] have kpos: "0 < ?k" by simp
    let ?pre' = "drop ?k pre"
    have d: "drop ?k ?s = ?pre' @ marker_line now @ rest" using k by simp
    have lt: "length ?pre' < length pre" using kpos k less.prems by (cases pre) auto
    have nd': "?pre' = [] \<or> \<not> is_digit (last ?pre')"
      using less.prems by (cases "?pre' = []") auto
    from less.hyps[OF lt nd']
    have "Occ (length ?pre' + 1) (length ?pre' + 1 + length ?M) now
            \<in> set (markers (drop ?k ?s))" by (simp only: d)
    then have "shift ?k (Occ (length ?pre' + 1) (length ?pre' + 1 + length ?M) now)
            \<in> set (map (shift ?k) (markers (drop ?k ?s)))" by simp
    moreover have "shift ?k (Occ (length ?pre' + 1) (length ?pre' + 1 + length ?M) now)
        = Occ (length pre + 1) (length pre + 1 + length ?M) now"
      using k by (simp add: shift_def)
    ultimately show ?thesis by (simp add: ms)
  qed
qed

lemma own_marker_found:
  assumes "pre = [] \<or> \<not> is_digit (last pre)"
  shows "own_marker pre t \<in> set (markers (pre @ marker_line t @ rest))"
  unfolding own_marker_def by (rule appended_marker_is_occurrence[OF assms])

text \<open>
  An occurrence newer than the cutoff is never cut away: both scans cut at the first
  newer occurrence, which is this one or stands before it.
\<close>

lemma newer_marker_retained:
  assumes "m \<in> set (markers content)" and "int (stamp m) > e"
  shows "\<exists>k x. scan_node e content = drop k content \<and> scan_deno e content = drop k content
           \<and> x \<in> set (markers (drop k content)) \<and> shift k x = m"
proof -
  from assms(2) have fm: "fresh e m" by (simp add: fresh_def)
  with assms(1) obtain m' where f: "find (fresh e) (markers content) = Some m'"
    by (cases "find (fresh e) (markers content)") (auto simp: find_None_iff)
  then obtain n where n: "n < length (markers content)"
    and b: "\<forall>j<n. \<not> fresh e (markers content ! j)"
    and d: "map (shift (start m')) (markers (drop (start m') content)) = drop n (markers content)"
    by (rule find_fresh_cut)
  from assms(1) obtain i where i: "i < length (markers content)" and mi: "markers content ! i = m"
    by (auto simp: in_set_conv_nth)
  with b fm have "n \<le> i" by (metis not_le_imp_less)
  with i mi have "m \<in> set (drop n (markers content))"
    by (metis nth_in_set_drop)
  with d obtain x where x: "x \<in> set (markers (drop (start m') content))" and sx: "shift (start m') x = m"
    by (metis (no_types, lifting) imageE set_map)
  from f have "scan_node e content = drop (start m') content"
    and "scan_deno e content = drop (start m') content"
    by (simp_all add: scan_node_markers scan_deno_markers)
  with x sx show ?thesis by metis
qed

text \<open>
  With one clock reading and \<open>ttl > 0\<close> the marker of the cycle is newer than the cutoff.
\<close>

lemma one_reading_newer: "0 < t \<Longrightarrow> int now > expiryTimestamp now (Some t)"
  by (simp add: expiryTimestamp_def or_zero_def)

text \<open>The file after a cycle that reads its own marker line.\<close>

lemma node_cycle_content:
  assumes "n_stream_open v" and "n_file v = Some nf"
  shows "node_content (onInterval_node BeforeRead currentTime now ttl separator v)
           = Some (scan_node (expiryTimestamp now ttl)
                     (n_content nf @ marker_line currentTime @ separator))"
  using assms by (simp add: node_content_def onInterval_node_def Let_def)

lemma deno_cycle_content:
  assumes "d_handle_open w" and "d_file w = Some df"
  shows "deno_content (onInterval_deno currentTime now ttl separator w)
           = Some (scan_deno (expiryTimestamp now ttl)
                     (d_content df @ marker_line currentTime @ separator))"
  using assms by (simp add: deno_content_def onInterval_deno_def Let_def)

section \<open>Decoding well-formed bytes\<close>

lemma utf8_ascii:
  "(of_char b :: nat) \<le> 0x7F \<Longrightarrow>
   utf8_lossy 0 0x80 0xBF [] (b # bs) = b # utf8_lossy 0 0x80 0xBF [] bs"
  by (simp add: utf8_lossy.simps)

lemma utf8_two:
  assumes "0xC2 \<le> (of_char b :: nat)" and "(of_char b :: nat) \<le> 0xDF" and "in_range 0x80 0xBF c"
  shows "utf8_lossy 0 0x80 0xBF [] (b # c # cs) = b # c # utf8_lossy 0 0x80 0xBF [] cs"
  using assms by (simp add: utf8_lossy.simps in_range_def)

lemma utf8_three:
  assumes "0xE0 \<le> (of_char b :: nat)" and "(of_char b :: nat) \<le> 0xEF"
    and "in_range (if (of_char b :: nat) = 0xE0 then 0xA0 else 0x80)
           (if (of_char b :: nat) = 0xED then 0x9F else 0xBF) c"
    and "in_range 0x80 0xBF d"
  shows "utf8_lossy 0 0x80 0xBF [] (b # c # d # ds) = b # c # d # utf8_lossy 0 0x80 0xBF [] ds"
  using assms by (simp add: utf8_lossy.simps in_range_def)

lemma utf8_four:
  assumes "0xF0 \<le> (of_char b :: nat)" and "(of_char b :: nat) \<le> 0xF4"
    and "in_range (if (of_char b :: nat) = 0xF0 then 0x90 else 0x80)
           (if (of_char b :: nat) = 0xF4 then 0x8F else 0xBF) c"
    and "in_range 0x80 0xBF d" and "in_range 0x80 0xBF e"
  shows "utf8_lossy 0 0x80 0xBF [] (b # c # d # e # es)
           = b # c # d # e # utf8_lossy 0 0x80 0xBF [] es"
  using assms by (simp add: utf8_lossy.simps in_range_def)

lemma wf_one:
  "(of_char b :: nat) \<le> 0x7F \<Longrightarrow> well_formed (b # bs) = well_formed bs"
  by (simp add: well_formed.simps(2))

lemma wf_two:
  "0xC2 \<le> (of_char b :: nat) \<Longrightarrow> (of_char b :: nat) \<le> 0xDF \<Longrightarrow>
   well_formed (b # bs)
     = (case bs of c # cs \<Rightarrow> in_range 0x80 0xBF c \<and> well_formed cs | _ \<Rightarrow> False)"
  by (simp add: well_formed.simps(2))

lemma wf_three:
  "0xE0 \<le> (of_char b :: nat) \<Longrightarrow> (of_char b :: nat) \<le> 0xEF \<Longrightarrow>
   well_formed (b # bs) =
     (case bs of
        c # d # ds \<Rightarrow>
          in_range (if (of_char b :: nat) = 0xE0 then 0xA0 else 0x80)
            (if (of_char b :: nat) = 0xED then 0x9F else 0xBF) c
          \<and> in_range 0x80 0xBF d \<and> well_formed ds
      | _ \<Rightarrow> False)"
  by (simp add: well_formed.simps(2) Let_def)

lemma wf_four:
  "0xF0 \<le> (of_char b :: nat) \<Longrightarrow> (of_char b :: nat) \<le> 0xF4 \<Longrightarrow>
   well_formed (b # bs) =
     (case bs of
        c # d # e # es \<Rightarrow>
          in_range (if (of_char b :: nat) = 0xF0 then 0x90 else 0x80)
            (if (of_char b :: nat) = 0xF4 then 0x8F else 0xBF) c
          \<and> in_range 0x80 0xBF d \<and> in_range 0x80 0xBF e \<and> well_formed es
      | _ \<Rightarrow> False)"
  by (simp add: well_formed.simps(2) Let_def)

lemma wf_none:
  "0x7F < (of_char b :: nat) \<Longrightarrow> (of_char b :: nat) < 0xC2 \<or> 0xF4 < (of_char b :: nat) \<Longrightarrow>
   \<not> well_formed (b # bs)"
  by (auto simp add: well_formed.simps(2) Let_def)

text \<open>Decoding leaves well-formed bytes as they are: reading and writing back changes nothing.\<close>

lemma utf8_lossy_well_formed: "well_formed bs \<Longrightarrow> utf8_lossy 0 0x80 0xBF [] bs = bs"
proof (induction bs rule: length_induct)
  case (1 bs)
  show ?case
  proof (cases bs)
    case Nil
    then show ?thesis by (simp add: utf8_lossy.simps)
  next
    case (Cons b r)
    let ?v = "of_char b :: nat"
    consider (one) "?v \<le> 0x7F" | (two) "0xC2 \<le> ?v" "?v \<le> 0xDF"
      | (three) "0xE0 \<le> ?v" "?v \<le> 0xEF" | (four) "0xF0 \<le> ?v" "?v \<le> 0xF4"
      | (none) "0x7F < ?v" "?v < 0xC2 \<or> 0xF4 < ?v"
      by linarith
    then show ?thesis
    proof cases
      case one
      with "1.prems" Cons have "well_formed r" by (simp add: wf_one)
      with "1.IH" Cons one show ?thesis by (simp add: utf8_ascii)
    next
      case two
      with "1.prems" Cons obtain c cs where r: "r = c # cs" and c: "in_range 0x80 0xBF c"
        and w: "well_formed cs"
        by (auto simp: wf_two split: list.splits)
      from "1.IH" Cons r w have "utf8_lossy 0 0x80 0xBF [] cs = cs" by simp
      with two c Cons r show ?thesis by (simp add: utf8_two)
    next
      case three
      with "1.prems" Cons obtain c d ds where r: "r = c # d # ds"
        and c: "in_range (if ?v = 0xE0 then 0xA0 else 0x80) (if ?v = 0xED then 0x9F else 0xBF) c"
        and d: "in_range 0x80 0xBF d" and w: "well_formed ds"
        by (auto simp: wf_three split: list.splits)
      from "1.IH" Cons r w have "utf8_lossy 0 0x80 0xBF [] ds = ds" by simp
      with utf8_three[OF three c d, of ds] Cons r show ?thesis by simp
    next
      case four
      with "1.prems" Cons obtain c d e es where r: "r = c # d # e # es"
        and c: "in_range (if ?v = 0xF0 then 0x90 else 0x80) (if ?v = 0xF4 then 0x8F else 0xBF) c"
        and d: "in_range 0x80 0xBF d" and e: "in_range 0x80 0xBF e" and w: "well_formed es"
        by (auto simp: wf_four split: list.splits)
      from "1.IH" Cons r w have "utf8_lossy 0 0x80 0xBF [] es = es" by simp
      with utf8_four[OF four c d e, of es] Cons r show ?thesis by simp
    next
      case none
      with "1.prems" Cons wf_none[of b r] show ?thesis by simp
    qed
  qed
qed

lemma well_formed_decoded:
  "well_formed bs \<Longrightarrow> toString bs = bs" "well_formed bs \<Longrightarrow> readTextFile bs = bs"
  by (simp_all add: toString_def readTextFile_def utf8_lossy_well_formed)

lemma ascii_well_formed: "\<forall>b\<in>set bs. (of_char b :: nat) \<le> 0x7F \<Longrightarrow> well_formed bs"
  by (induction bs) (simp_all add: wf_one)

lemma scan_suffix: "suffix (scan_node e c) c" "suffix (scan_deno e c) c"
  by (simp_all add: scan_node_markers scan_deno_markers suffix_drop split: option.splits)

section \<open>The constructor and its trace\<close>

lemma node_check_trace:
  "n_trace (expire_check_node ed now v) =
     n_trace v @ (if truthy ed then
        (case n_file v of None \<Rightarrow> []
         | Some f \<Rightarrow> if too_old_node ed now f then [Stat, Remove] else [Stat]) else [])"
  by (simp add: expire_check_node_def too_old_node_def split: option.splits)

lemma node_check_file:
  "n_file (expire_check_node ed now v) =
     (case n_file v of None \<Rightarrow> None
      | Some f \<Rightarrow> if truthy ed \<and> too_old_node ed now f then None else Some f)"
  by (simp add: expire_check_node_def too_old_node_def split: option.splits)

lemma node_cycle_trace:
  "\<exists>evs. n_trace (onInterval_node l t1 t2 ttl sep x) = n_trace x @ evs
         \<and> filter is_check evs = [] \<and> (evs = [] \<or> is_activity (hd evs))"
  by (simp add: onInterval_node_def Let_def is_check_def is_activity_def split: option.splits)

lemma node_cycle_file:
  "(n_file (onInterval_node l t1 t2 ttl sep x) = None) = (n_file x = None)"
  by (simp add: onInterval_node_def Let_def split: option.splits)

lemma deno_check_trace:
  "d_trace (expire_check_deno ed now w) =
     d_trace w @ (if truthy ed then
        (case d_file w of None \<Rightarrow> []
         | Some f \<Rightarrow> if too_old_deno ed now f then [Stat, Remove] else [Stat]) else [])"
  by (simp add: expire_check_deno_def too_old_deno_def Let_def split: option.splits)

lemma deno_check_file:
  "d_file (expire_check_deno ed now w) =
     (case d_file w of None \<Rightarrow> None
      | Some f \<Rightarrow> if truthy ed \<and> too_old_deno ed now f then None else Some f)"
  by (simp add: expire_check_deno_def too_old_deno_def Let_def split: option.splits)

lemma deno_cycle_trace:
  "\<exists>evs. d_trace (onInterval_deno t1 t2 ttl sep x) = d_trace x @ evs
         \<and> filter is_check evs = [] \<and> (evs = [] \<or> is_activity (hd evs))"
  by (simp add: onInterval_deno_def Let_def is_check_def is_activity_def split: option.splits)

lemma deno_cycle_file:
  "(d_file (onInterval_deno t1 t2 ttl sep x) = None) = (d_file x = None)"
  by (simp add: onInterval_deno_def Let_def split: option.splits)

lemma checked_once_first_append:
  assumes "cs = [] \<or> cs = [Stat] \<or> cs = [Stat, Remove]"
    and "filter is_check evs = []"
  shows "checked_once_first (cs @ evs)"
proof -
  have na: "\<forall>ev\<in>set cs. \<not> is_activity ev"
    using assms(1) by (auto simp: is_activity_def)
  have c1: "length (filter (\<lambda>ev. ev = Stat) cs) \<le> 1"
    and c2: "length (filter (\<lambda>ev. ev = Remove) cs) \<le> 1"
    using assms(1) by auto
  have "filter (\<lambda>ev. ev = Stat) evs = []" and "filter (\<lambda>ev. ev = Remove) evs = []"
    using assms(2) by (auto simp: filter_empty_conv is_check_def)
  moreover have "dropWhile (\<lambda>ev. \<not> is_activity ev) (cs @ evs) = dropWhile (\<lambda>ev. \<not> is_activity ev) evs"
    using na by (simp add: dropWhile_append)
  moreover have "filter is_check (dropWhile (\<lambda>ev. \<not> is_activity ev) evs) = []"
    using assms(2) by (metis filter_empty_conv set_dropWhileD)
  ultimately show ?thesis
    using c1 c2 by (simp add: checked_once_first_def)
qed

lemma node_constructor_trace:
  assumes "n_trace v = []"
  shows "checked_once_first (n_trace (createFileLogger_node ed ttl sep l now v))"
proof -
  let ?cs = "(if truthy ed then
        (case n_file v of None \<Rightarrow> []
         | Some f \<Rightarrow> if too_old_node ed now f then [Stat, Remove] else [Stat]) else [])"
  let ?w2 = "expire_check_node ed now (v\<lparr>n_stream_open := True\<rparr>)"
  have t2: "n_trace ?w2 = ?cs" using assms by (simp add: node_check_trace)
  have cs: "?cs = [] \<or> ?cs = [Stat] \<or> ?cs = [Stat, Remove]"
    by (simp split: option.splits)
  show ?thesis
  proof (cases "truthy ttl")
    case False
    then have "n_trace (createFileLogger_node ed ttl sep l now v) = ?cs @ []"
      using t2 by (simp add: createFileLogger_node_def Let_def)
    moreover have "checked_once_first (?cs @ [])"
      by (rule checked_once_first_append[OF cs]) simp
    ultimately show ?thesis by simp
  next
    case True
    let ?w3 = "?w2\<lparr>n_interval := True, n_trace := n_trace ?w2 @ [SetInterval]\<rparr>"
    obtain evs where e: "n_trace (onInterval_node l now now ttl sep ?w3) = n_trace ?w3 @ evs"
      and f: "filter is_check evs = []"
      using node_cycle_trace[of l now now ttl sep ?w3] by blast
    have "n_trace (createFileLogger_node ed ttl sep l now v) = ?cs @ (SetInterval # evs)"
      using True e t2 by (simp add: createFileLogger_node_def Let_def)
    moreover have "checked_once_first (?cs @ (SetInterval # evs))"
      by (rule checked_once_first_append[OF cs]) (simp add: f is_check_def)
    ultimately show ?thesis by simp
  qed
qed

lemma node_constructor_file:
  "(n_file (createFileLogger_node ed ttl sep l now v) = None)
     = (case n_file v of None \<Rightarrow> True | Some f \<Rightarrow> truthy ed \<and> too_old_node ed now f)"
  by (simp add: createFileLogger_node_def Let_def node_cycle_file node_check_file
      split: option.splits)

lemma deno_constructor_trace:
  assumes "d_trace w = []"
  shows "checked_once_first (d_trace (snd (createFileLogger_deno ed ttl sep tid now w)))"
proof -
  let ?w1 = "(ensureFileSync now w)\<lparr>d_handle_open := True\<rparr>"
  let ?cs = "(if truthy ed then
        (case d_file ?w1 of None \<Rightarrow> []
         | Some f \<Rightarrow> if too_old_deno ed now f then [Stat, Remove] else [Stat]) else [])"
  let ?w2 = "expire_check_deno ed now ?w1"
  have "d_trace ?w1 = []" using assms by (simp add: ensureFileSync_def split: option.splits)
  then have t2: "d_trace ?w2 = ?cs" by (simp only: deno_check_trace append_Nil)
  have cs: "?cs = [] \<or> ?cs = [Stat] \<or> ?cs = [Stat, Remove]"
    by (simp split: option.splits)
  show ?thesis
  proof (cases "truthy ttl")
    case False
    then have "d_trace (snd (createFileLogger_deno ed ttl sep tid now w)) = ?cs @ []"
      using t2 by (simp add: createFileLogger_deno_def Let_def)
    moreover have "checked_once_first (?cs @ [])"
      by (rule checked_once_first_append[OF cs]) simp
    ultimately show ?thesis by simp
  next
    case True
    let ?w3 = "?w2\<lparr>d_interval := Some tid, d_trace := d_trace ?w2 @ [SetInterval]\<rparr>"
    obtain evs where e: "d_trace (onInterval_deno now now ttl sep ?w3) = d_trace ?w3 @ evs"
      and f: "filter is_check evs = []"
      using deno_cycle_trace[of now now ttl sep ?w3] by blast
    have "d_trace (snd (createFileLogger_deno ed ttl sep tid now w)) = ?cs @ (SetInterval # evs)"
      using True e t2 by (simp add: createFileLogger_deno_def Let_def)
    moreover have "checked_once_first (?cs @ (SetInterval # evs))"
      by (rule checked_once_first_append[OF cs]) (simp add: f is_check_def)
    ultimately show ?thesis by simp
  qed
qed

lemma too_old_new_file:
  "\<not> too_old_deno ed now \<lparr>d_content = [], d_birthtime = Some now, d_mtime = Some now\<rparr>"
  by (simp add: too_old_deno_def)

lemma deno_constructor_file:
  "(d_file (snd (createFileLogger_deno ed ttl sep tid now w)) = None)
     = (truthy ed \<and> (case d_file w of None \<Rightarrow> False | Some f \<Rightarrow> too_old_deno ed now f))"
  using too_old_new_file[of ed now]
  by (simp add: createFileLogger_deno_def Let_def deno_cycle_file deno_check_file
      ensureFileSync_def split: option.splits)

lemma later_operations_no_check:
  "filter is_check (n_trace (onInterval_node l t1 t2 ttl sep x)) = filter is_check (n_trace x)"
  "filter is_check (n_trace (appendLog_node sep lg x)) = filter is_check (n_trace x)"
  "filter is_check (n_trace (dispose_node x)) = filter is_check (n_trace x)"
  "filter is_check (d_trace (onInterval_deno t1 t2 ttl sep y)) = filter is_check (d_trace y)"
  "filter is_check (d_trace (appendLog_deno sep lg y)) = filter is_check (d_trace y)"
  "filter is_check (d_trace (dispose_deno iid y)) = filter is_check (d_trace y)"
  by (simp_all add: onInterval_node_def appendLog_node_def dispose_node_def
      onInterval_deno_def appendLog_deno_def dispose_deno_def clearInterval_def
      Let_def is_check_def split: option.splits)

lemma filter_check_events:
  "filter is_check (if c then (case fo of None \<Rightarrow> nf
                               | Some f \<Rightarrow> if old f then [Stat, Remove] else [Stat]) else [])
     = (if c then (case fo of None \<Rightarrow> filter is_check nf
                    | Some f \<Rightarrow> if old f then [Stat, Remove] else [Stat]) else [])"
  by (cases c; cases fo) (simp_all add: is_check_def)

lemma filter_check_Stat: "filter is_check [Stat] = [Stat]"
  by (simp add: is_check_def)

lemma remove_in_check_events:
  assumes "Remove \<notin> set nf"
  shows "(Remove \<in> set (if c then (case fo of None \<Rightarrow> nf
                               | Some f \<Rightarrow> if old f then [Stat, Remove] else [Stat]) else []))
     = (c \<and> (case fo of None \<Rightarrow> False | Some f \<Rightarrow> old f))"
proof (cases fo)
  case None
  with assms show ?thesis by (cases c) simp_all
next
  case (Some f)
  then show ?thesis by (cases c; cases "old f") simp_all
qed

lemma node_constructor_checks:
  assumes "n_trace v = []"
  shows "filter is_check (n_trace (createFileLogger_node ed ttl sep l now v)) =
     (if truthy ed then
        (case n_file v of None \<Rightarrow> []
         | Some f \<Rightarrow> if too_old_node ed now f then [Stat, Remove] else [Stat]) else [])"
proof -
  let ?w2 = "expire_check_node ed now (v\<lparr>n_stream_open := True\<rparr>)"
  let ?w3 = "?w2\<lparr>n_interval := True, n_trace := n_trace ?w2 @ [SetInterval]\<rparr>"
  have "n_trace ?w2 = n_trace v @
     (if truthy ed then
        (case n_file v of None \<Rightarrow> []
         | Some f \<Rightarrow> if too_old_node ed now f then [Stat, Remove] else [Stat]) else [])"
    by (simp add: node_check_trace)
  then have "filter is_check (n_trace ?w2) = filter is_check
     (if truthy ed then
        (case n_file v of None \<Rightarrow> []
         | Some f \<Rightarrow> if too_old_node ed now f then [Stat, Remove] else [Stat]) else [])"
    by (simp only: assms append_Nil)
  then have t2: "filter is_check (n_trace ?w2) =
     (if truthy ed then
        (case n_file v of None \<Rightarrow> []
         | Some f \<Rightarrow> if too_old_node ed now f then [Stat, Remove] else [Stat]) else [])"
    by (simp only: filter_check_events filter.simps)
  have t3: "filter is_check (n_trace ?w3) = filter is_check (n_trace ?w2)"
    by (simp add: is_check_def)
  have "filter is_check (n_trace (createFileLogger_node ed ttl sep l now v))
      = filter is_check (n_trace ?w2)"
  proof (cases "truthy ttl")
    case True
    then have "createFileLogger_node ed ttl sep l now v = onInterval_node l now now ttl sep ?w3"
      by (simp add: createFileLogger_node_def Let_def)
    then show ?thesis by (simp only: later_operations_no_check(1) t3)
  next
    case False
    then show ?thesis by (simp add: createFileLogger_node_def Let_def)
  qed
  with t2 show ?thesis by (simp only:)
qed

lemma deno_new_file_checks:
  "(if truthy ed then
      (case (case fo of
               None \<Rightarrow> Some \<lparr>d_content = [], d_birthtime = Some now, d_mtime = Some now\<rparr>
             | Some f \<Rightarrow> Some f) of
         None \<Rightarrow> []
       | Some f \<Rightarrow> if too_old_deno ed now f then [Stat, Remove] else [Stat]) else [])
   = (if truthy ed then
        (case fo of None \<Rightarrow> [Stat]
         | Some f \<Rightarrow> if too_old_deno ed now f then [Stat, Remove] else [Stat]) else [])"
  using too_old_new_file[of ed now] by (cases "truthy ed"; cases fo) simp_all

lemma deno_constructor_checks:
  assumes "d_trace w = []"
  shows "filter is_check (d_trace (snd (createFileLogger_deno ed ttl sep tid now w))) =
     (if truthy ed then
        (case d_file w of None \<Rightarrow> [Stat]
         | Some f \<Rightarrow> if too_old_deno ed now f then [Stat, Remove] else [Stat]) else [])"
proof -
  let ?w1 = "(ensureFileSync now w)\<lparr>d_handle_open := True\<rparr>"
  let ?w2 = "expire_check_deno ed now ?w1"
  let ?w3 = "?w2\<lparr>d_interval := Some tid, d_trace := d_trace ?w2 @ [SetInterval]\<rparr>"
  have t1: "d_trace ?w1 = d_trace w"
    by (simp add: ensureFileSync_def split: option.splits)
  have f1: "d_file ?w1 = (case d_file w of
       None \<Rightarrow> Some \<lparr>d_content = [], d_birthtime = Some now, d_mtime = Some now\<rparr>
     | Some f \<Rightarrow> Some f)"
    by (simp add: ensureFileSync_def split: option.splits)
  have "d_trace ?w2 = d_trace ?w1 @
     (if truthy ed then
        (case d_file ?w1 of None \<Rightarrow> []
         | Some f \<Rightarrow> if too_old_deno ed now f then [Stat, Remove] else [Stat]) else [])"
    by (rule deno_check_trace)
  then have "d_trace ?w2 =
     (if truthy ed then
        (case d_file w of None \<Rightarrow> [Stat]
         | Some f \<Rightarrow> if too_old_deno ed now f then [Stat, Remove] else [Stat]) else [])"
    by (simp only: t1 f1 assms append_Nil deno_new_file_checks)
  then have t2: "filter is_check (d_trace ?w2) =
     (if truthy ed then
        (case d_file w of None \<Rightarrow> [Stat]
         | Some f \<Rightarrow> if too_old_deno ed now f then [Stat, Remove] else [Stat]) else [])"
    by (simp only: filter_check_events filter_check_Stat)
  have t3: "filter is_check (d_trace ?w3) = filter is_check (d_trace ?w2)"
    by (simp add: is_check_def)
  have "filter is_check (d_trace (snd (createFileLogger_deno ed ttl sep tid now w)))
      = filter is_check (d_trace ?w2)"
  proof (cases "truthy ttl")
    case True
    then have "snd (createFileLogger_deno ed ttl sep tid now w) = onInterval_deno now now ttl sep ?w3"
      by (simp add: createFileLogger_deno_def Let_def)
    then show ?thesis by (simp only: later_operations_no_check(4) t3)
  next
    case False
    then show ?thesis by (simp add: createFileLogger_deno_def Let_def)
  qed
  with t2 show ?thesis by (simp only:)
qed

lemma Remove_in_checks: "(Remove \<in> set tr) = (Remove \<in> set (filter is_check tr))"
  by (auto simp: is_check_def)

lemma node_constructor_removes:
  assumes "n_trace v = []"
  shows "(Remove \<in> set (n_trace (createFileLogger_node ed ttl sep l now v)))
           = (truthy ed \<and> (case n_file v of None \<Rightarrow> False | Some f \<Rightarrow> too_old_node ed now f))"
proof -
  have "(Remove \<in> set (n_trace (createFileLogger_node ed ttl sep l now v)))
      = (Remove \<in> set (filter is_check (n_trace (createFileLogger_node ed ttl sep l now v))))"
    by (rule Remove_in_checks)
  also have "\<dots> = (truthy ed \<and> (case n_file v of None \<Rightarrow> False
                                   | Some f \<Rightarrow> too_old_node ed now f))"
    unfolding node_constructor_checks[OF assms] by (rule remove_in_check_events) simp
  finally show ?thesis .
qed

lemma deno_constructor_removes:
  assumes "d_trace w = []"
  shows "(Remove \<in> set (d_trace (snd (createFileLogger_deno ed ttl sep tid now w))))
           = (truthy ed \<and> (case d_file w of None \<Rightarrow> False | Some f \<Rightarrow> too_old_deno ed now f))"
proof -
  have "(Remove \<in> set (d_trace (snd (createFileLogger_deno ed ttl sep tid now w))))
      = (Remove \<in> set (filter is_check (d_trace (snd (createFileLogger_deno ed ttl sep tid now w)))))"
    by (rule Remove_in_checks)
  also have "\<dots> = (truthy ed \<and> (case d_file w of None \<Rightarrow> False
                                   | Some f \<Rightarrow> too_old_deno ed now f))"
    unfolding deno_constructor_checks[OF assms] by (rule remove_in_check_events) simp
  finally show ?thesis .
qed

lemma tick_no_check:
  "filter is_check (n_trace (tick_node l t1 t2 ttl sep x)) = filter is_check (n_trace x)"
  "filter is_check (d_trace (tick_deno t1 t2 ttl sep y)) = filter is_check (d_trace y)"
  by (simp_all add: tick_node_def tick_deno_def later_operations_no_check)

text \<open>
  The Deno implementation does cancel its interval: the runtime's interval ids are not 0,
  and after \<open>dispose\<close> no interval is live and the handle is closed.
\<close>

lemma dispose_deno_cancels:
  assumes "timerId \<noteq> 0" and "d_interval w = None"
  shows "d_interval (dispose_deno (fst (createFileLogger_deno ed ttl sep timerId now w))
            (snd (createFileLogger_deno ed ttl sep timerId now w))) = None"
    and "\<not> d_handle_open (dispose_deno (fst (createFileLogger_deno ed ttl sep timerId now w))
            (snd (createFileLogger_deno ed ttl sep timerId now w)))"
  using assms
  by (auto simp: createFileLogger_deno_def dispose_deno_def clearInterval_def Let_def truthy_def
      or_zero_def onInterval_deno_def expire_check_deno_def ensureFileSync_def
      split: option.splits if_splits)

section \<open>Evaluation of the samples\<close>

lemma digit_chars:
  "digit_char 0 = CHR ''0''" "digit_char 1 = CHR ''1''" "digit_char 2 = CHR ''2''"
  "digit_char 3 = CHR ''3''" "digit_char 4 = CHR ''4''" "digit_char 5 = CHR ''5''"
  "digit_char 6 = CHR ''6''" "digit_char 7 = CHR ''7''" "digit_char 8 = CHR ''8''"
  "digit_char 9 = CHR ''9''" "digit_char (Suc 0) = CHR ''1''"
  by code_simp+

lemmas text_eval =
  scan_node.simps deno_loop.simps scan_deno_def exec_g_def match_here_def re_head_def
  re_tail_def is_digit_def parseInt10_def is_space_def newer_def digits_val_def digit_val_def
  markers.simps shift_def marker_line_def show_nat.simps digit_chars

lemma expiry_values:
  "expiryTimestamp 6000 (Some 2) = 4000"
  "expiryTimestamp 9000 (Some 2) = 7000"
  "expiryTimestamp 5000 (Some 2) = 3000"
  "expiryTimestamp 1000 (Some 60) = - 59000"
  "expiryTimestamp 61000 (Some 60) = 1000"
  "expiryTimestamp 200000 (Some 60) = 140000"
  "expiryTimestamp 2000000 (Some 2) = 1998000"
  by (simp_all add: expiryTimestamp_def or_zero_def)

lemma markers_sample: "markers sample_log = [Occ 3 40 1000, Occ 45 82 5000]"
  by (simp add: sample_log_def text_eval)

lemma markers_tie: "markers tie_log = [Occ 0 37 1000, Occ 45 83 61000]"
  by (simp add: tie_log_def text_eval)

lemma scan_sample_4000:
  "scan_node 4000 sample_log = ''---------- TIMESTAMP: 5000 ---------- \<newline>c\<newline>''"
  "scan_deno 4000 sample_log = ''---------- TIMESTAMP: 5000 ---------- \<newline>c\<newline>''"
  by (simp_all add: sample_log_def text_eval)

lemma scan_sample_7000:
  "scan_node 7000 sample_log = '' \<newline>c\<newline>''"
  "scan_deno 7000 sample_log = sample_log"
  by (simp_all add: sample_log_def text_eval)

lemma scan_tie_1000:
  "scan_node 1000 tie_log = ''---------- TIMESTAMP: 61000 ---------- \<newline>''"
  "scan_deno 1000 tie_log = ''---------- TIMESTAMP: 61000 ---------- \<newline>''"
  by (simp_all add: tie_log_def text_eval)

lemma markers_after_tie:
  "markers ''---------- TIMESTAMP: 61000 ---------- \<newline>'' = [Occ 0 38 61000]"
  by (simp add: text_eval)

lemma torn_content:
  "torn_log @ marker_line 2000000 @ ''\<newline>''
     = ''boot\<newline> ---------- TIMESTAMP: 17 ---------- TIMESTAMP: 2000000 ---------- \<newline>''"
  by (simp add: torn_log_def text_eval)

lemma scan_torn:
  "scan_node 1998000
     ''boot\<newline> ---------- TIMESTAMP: 17 ---------- TIMESTAMP: 2000000 ---------- \<newline>''
     = '' TIMESTAMP: 2000000 ---------- \<newline>''"
  "scan_deno 1998000
     ''boot\<newline> ---------- TIMESTAMP: 17 ---------- TIMESTAMP: 2000000 ---------- \<newline>''
     = ''boot\<newline> ---------- TIMESTAMP: 17 ---------- TIMESTAMP: 2000000 ---------- \<newline>''"
  by (simp_all add: text_eval)

lemma line_2000000: "marker_line 2000000 = '' ---------- TIMESTAMP: 2000000 ---------- ''"
  by (simp add: text_eval)

lemma includes_torn:
  "includes_text
     ''boot\<newline> ---------- TIMESTAMP: 17 ---------- TIMESTAMP: 2000000 ---------- \<newline>''
     '' ---------- TIMESTAMP: 2000000 ---------- ''"
  "\<not> includes_text '' TIMESTAMP: 2000000 ---------- \<newline>''
     '' ---------- TIMESTAMP: 2000000 ---------- ''"
  "markers '' TIMESTAMP: 2000000 ---------- \<newline>'' = []"
  by (simp_all add: text_eval)

lemma line_1000: "marker_line 1000 = '' ---------- TIMESTAMP: 1000 ---------- ''"
  by (simp add: text_eval)

lemma scan_boot: "scan_node (- 59000) ''boot\<newline>'' = ''boot\<newline>''"
  by (simp add: text_eval)

lemma scan_after_dispose:
  "scan_node 1000 ''boot\<newline> ---------- TIMESTAMP: 1000 ---------- \<newline>'' = '' \<newline>''"
  by (simp add: text_eval)

lemma scan_torn_separator:
  "scan_deno 1998000
     ''boot\<newline> ---------- TIMESTAMP: 17 ---------- TIMESTAMP: 2000000 ---------- TIMESTAMP: 3000000 ---------- \<newline>''
     = ''---------- TIMESTAMP: 3000000 ---------- \<newline>''"
  by (simp add: text_eval)

lemma not_includes_separator:
  "\<not> includes_text ''---------- TIMESTAMP: 3000000 ---------- \<newline>''
       '' ---------- TIMESTAMP: 2000000 ---------- ''"
  by simp

lemma markers_boot: "markers ''boot\<newline>'' = []"
  by (simp add: text_eval)

lemma scan_boot_1998000: "scan_node 1998000 ''boot\<newline>'' = ''boot\<newline>''"
  by (simp add: text_eval)

lemma expiry_5001: "expiryTimestamp 5001 (Some 2) = 3001"
  by (simp add: expiryTimestamp_def or_zero_def)

lemma own_marker_sample: "own_marker ''a\<newline>'' 5000 = Occ 3 40 5000"
  by (simp add: own_marker_def text_eval)

lemma markers_one_line:
  "markers (''a\<newline>'' @ marker_line 5000 @ ''\<newline>'') = [Occ 3 40 5000]"
  by (simp add: text_eval)

lemma scan_one_line:
  "scan_node 3001 (''a\<newline>'' @ marker_line 5000 @ ''\<newline>'')
     = ''---------- TIMESTAMP: 5000 ---------- \<newline>''"
  "scan_deno 3001 (''a\<newline>'' @ marker_line 5000 @ ''\<newline>'')
     = ''---------- TIMESTAMP: 5000 ---------- \<newline>''"
  by (simp_all add: text_eval)

lemma decode_ff:
  "toString [CHR ''x'', CHR 0xFF, CHR 0x0A] = [CHR ''x'', CHR 0xEF, CHR 0xBF, CHR 0xBD, CHR 0x0A]"
  "readTextFile [CHR ''x'', CHR 0xFF, CHR 0x0A] = [CHR ''x'', CHR 0xEF, CHR 0xBF, CHR 0xBD, CHR 0x0A]"
  by (simp_all add: toString_def readTextFile_def utf8_lossy.simps replacement_def)

lemma scan_ff:
  "scan_node e [CHR ''x'', CHR 0xEF, CHR 0xBF, CHR 0xBD, CHR 0x0A]
     = [CHR ''x'', CHR 0xEF, CHR 0xBF, CHR 0xBD, CHR 0x0A]"
  "scan_deno e [CHR ''x'', CHR 0xEF, CHR 0xBF, CHR 0xBD, CHR 0x0A]
     = [CHR ''x'', CHR 0xEF, CHR 0xBF, CHR 0xBD, CHR 0x0A]"
  by (simp_all add: scan_node.simps deno_loop.simps scan_deno_def exec_g_def match_here_def
      re_head_def)

lemma not_suffix_ff:
  "\<not> suffix [CHR ''x'', CHR 0xEF, CHR 0xBF, CHR 0xBD, CHR 0x0A] [CHR ''x'', CHR 0xFF, CHR 0x0A]"
  by (simp add: suffix_Cons)

lemma accented_well_formed: "well_formed accented_log"
  by (simp add: accented_log_def well_formed.simps in_range_def)

lemma scan_accented:
  "scan_node 3000 accented_log = ''---------- TIMESTAMP: 5000 ---------- \<newline>''"
  "scan_deno 3000 accented_log = ''---------- TIMESTAMP: 5000 ---------- \<newline>''"
  by (simp_all add: accented_log_def text_eval)

section \<open>The claims\<close>

text \<open>
  Claim C1. For every content and every time \<open>now\<close>: when the marker \<open>m\<close> is the first
  Age Marker occurrence, in file order, whose timestamp is strictly greater than
  \<open>expiryTimestamp = now - ttl * 1000\<close> (every occurrence before it is less or equal),
  both implementations write back exactly the text from the start of \<open>m\<close> to the end
  of the file.
\<close>

theorem cut_at_first_newer_marker:
  assumes "markers content = older @ m # later"
    and "\<forall>x\<in>set older. int (stamp x) \<le> expiryTimestamp now ttl"
    and "int (stamp m) > expiryTimestamp now ttl"
  shows "scan_node (expiryTimestamp now ttl) content = drop (start m) content
       \<and> scan_deno (expiryTimestamp now ttl) content = drop (start m) content"
proof -
  have "find (fresh (expiryTimestamp now ttl)) (markers content) = Some m"
    unfolding assms(1) using assms(2,3) by (intro find_first) (auto simp: fresh_def)
  then show ?thesis by (simp add: scan_node_markers scan_deno_markers)
qed

text \<open>
  The theorem at a file with two markers, stamped 1000 and 5000, read at \<open>now = 6000\<close>
  with \<open>ttl = 2\<close>: the cutoff is 4000 and the file is cut at the second marker.
\<close>

theorem cut_at_first_newer_marker_witness:
  "markers sample_log = [Occ 3 40 1000] @ Occ 45 82 5000 # []
   \<and> int (stamp (Occ 3 40 1000)) \<le> expiryTimestamp 6000 (Some 2)
   \<and> int (stamp (Occ 45 82 5000)) > expiryTimestamp 6000 (Some 2)
   \<and> scan_node (expiryTimestamp 6000 (Some 2)) sample_log
       = ''---------- TIMESTAMP: 5000 ---------- \<newline>c\<newline>''
   \<and> scan_deno (expiryTimestamp 6000 (Some 2)) sample_log
       = ''---------- TIMESTAMP: 5000 ---------- \<newline>c\<newline>''"
proof -
  have a: "markers sample_log = [Occ 3 40 1000] @ Occ 45 82 5000 # []"
    by (simp add: markers_sample)
  have b: "\<forall>x\<in>set [Occ 3 40 1000]. int (stamp x) \<le> expiryTimestamp 6000 (Some 2)"
    by (simp add: expiry_values)
  have c: "int (stamp (Occ 45 82 5000)) > expiryTimestamp 6000 (Some 2)"
    by (simp add: expiry_values)
  have d: "drop 45 sample_log = ''---------- TIMESTAMP: 5000 ---------- \<newline>c\<newline>''"
    by (simp add: sample_log_def)
  from cut_at_first_newer_marker[OF a b c] a b c show ?thesis
    by (simp add: d)
qed

text \<open>
  Claim C2 as stated fails: with both markers of the sample file expired (cutoff 7000),
  Node writes back the text after the last marker and Deno the whole file; neither
  empties it.
\<close>

theorem truncation_counterexample:
  "map stamp (markers sample_log) = [1000, 5000]
   \<and> expiryTimestamp 9000 (Some 2) = 7000
   \<and> scan_node (expiryTimestamp 9000 (Some 2)) sample_log = '' \<newline>c\<newline>''
   \<and> scan_deno (expiryTimestamp 9000 (Some 2)) sample_log = sample_log
   \<and> sample_log \<noteq> []"
  by (simp add: markers_sample expiry_values scan_sample_7000) (simp add: sample_log_def)

text \<open>
  Claim C2, as amended. When no Age Marker occurrence has a timestamp strictly greater
  than \<open>expiryTimestamp\<close>, the file is not emptied: the Node implementation writes back
  the text that follows the last occurrence (the whole content when there is none), and
  the Deno implementation writes back the whole content.
\<close>

theorem no_newer_marker_retained:
  assumes "\<forall>x\<in>set (markers content). int (stamp x) \<le> expiryTimestamp now ttl"
  shows "scan_node (expiryTimestamp now ttl) content = drop (end_of (markers content)) content
       \<and> scan_deno (expiryTimestamp now ttl) content = content"
proof -
  have "find (fresh (expiryTimestamp now ttl)) (markers content) = None"
    using assms by (intro find_none) (auto simp: fresh_def)
  then show ?thesis by (simp add: scan_node_markers scan_deno_markers)
qed

text \<open>
  The amended claim at a file whose two markers are both older than the cutoff 140000.
\<close>

theorem no_newer_marker_retained_witness:
  "map stamp (markers tie_log) = [1000, 61000]
   \<and> expiryTimestamp 200000 (Some 60) = 140000
   \<and> scan_node (expiryTimestamp 200000 (Some 60)) tie_log = '' \<newline>''
   \<and> scan_deno (expiryTimestamp 200000 (Some 60)) tie_log = tie_log"
proof -
  have h: "\<forall>x\<in>set (markers tie_log). int (stamp x) \<le> expiryTimestamp 200000 (Some 60)"
    by (simp add: markers_tie expiry_values)
  have e: "end_of [Occ 0 37 1000, Occ 45 83 61000] = 83" by (simp add: end_of_def)
  have d: "drop 83 tie_log = '' \<newline>''" by (simp add: tie_log_def)
  from no_newer_marker_retained[OF h] show ?thesis
    by (simp add: e d markers_tie expiry_values)
qed

text \<open>
  Claim C3 as stated fails in the Node implementation. First, the file ends in a torn
  marker (\<open>---------- TIMESTAMP: 17\<close>, no closing dashes); the cycle appends its marker
  line for \<open>currentTime = now = 2000000\<close> with \<open>ttl = 2\<close>, and the content read holds
  that line. The pattern matches the torn marker together with the dashes of the new
  line; its timestamp 17 is expired, the scan cuts behind it, and the file written back
  holds neither the marker line nor any Age Marker. Second, the write of the stream is
  not awaited: when the marker line reaches a file holding \<open>boot\<close> after
  \<open>readFileSync\<close> and before \<open>writeFileSync\<close>, the rewrite of the completed cycle
  overwrites it, and the file is left without any Age Marker. The Deno implementation
  awaits its write and keeps the whole content of the torn file; it too loses the marker
  line when, besides the torn marker in front of the line, the separator behind it
  continues the closing dashes of the line to a marker of its own, stamped 3000000 here,
  at which the scan then cuts.
\<close>

theorem torn_marker_counterexample:
  "torn_log @ marker_line 2000000 @ ''\<newline>''
     = ''boot\<newline> ---------- TIMESTAMP: 17 ---------- TIMESTAMP: 2000000 ---------- \<newline>''
   \<and> includes_text (torn_log @ marker_line 2000000 @ ''\<newline>'') (marker_line 2000000)
   \<and> node_content (onInterval_node BeforeRead 2000000 2000000 (Some 2) ''\<newline>''
        (node_running torn_log))
       = Some '' TIMESTAMP: 2000000 ---------- \<newline>''
   \<and> \<not> includes_text '' TIMESTAMP: 2000000 ---------- \<newline>'' (marker_line 2000000)
   \<and> markers '' TIMESTAMP: 2000000 ---------- \<newline>'' = []
   \<and> node_content (onInterval_node BeforeRewrite 2000000 2000000 (Some 2) ''\<newline>''
        (node_running ''boot\<newline>''))
       = Some ''boot\<newline>''
   \<and> markers ''boot\<newline>'' = []
   \<and> deno_content (onInterval_deno 2000000 2000000 (Some 2)
        ''TIMESTAMP: 3000000 ---------- \<newline>'' (deno_running torn_log))
       = Some ''---------- TIMESTAMP: 3000000 ---------- \<newline>''
   \<and> \<not> includes_text ''---------- TIMESTAMP: 3000000 ---------- \<newline>'' (marker_line 2000000)"
proof -
  have c: "node_content (onInterval_node BeforeRead 2000000 2000000 (Some 2) ''\<newline>''
        (node_running torn_log))
       = Some '' TIMESTAMP: 2000000 ---------- \<newline>''"
    by (simp add: node_content_def onInterval_node_def node_running_def Let_def expiry_values
        torn_content scan_torn)
  have r: "node_content (onInterval_node BeforeRewrite 2000000 2000000 (Some 2) ''\<newline>''
        (node_running ''boot\<newline>''))
       = Some ''boot\<newline>''"
    by (simp add: node_content_def onInterval_node_def node_running_def Let_def expiry_values
        scan_boot_1998000)
  have d: "deno_content (onInterval_deno 2000000 2000000 (Some 2)
        ''TIMESTAMP: 3000000 ---------- \<newline>'' (deno_running torn_log))
       = Some ''---------- TIMESTAMP: 3000000 ---------- \<newline>''"
    by (simp add: deno_content_def onInterval_deno_def deno_running_def Let_def expiry_values
        torn_log_def line_2000000 scan_torn_separator)
  show ?thesis
    by (simp only: torn_content c r d)
      (simp add: line_2000000 includes_torn markers_boot not_includes_separator)
qed

text \<open>
  Claim C3, as amended. A cycle reads the clock twice: \<open>currentTime\<close> for its marker and
  \<open>now\<close> for the cutoff. Assume that \<open>currentTime\<close> is strictly greater than
  \<open>expiryTimestamp = now - ttl * 1000\<close> (with \<open>ttl > 0\<close> this is so when the two
  readings are equal, and as long as they are less than \<open>ttl\<close> seconds apart), that the
  content read holds the appended marker line (in Deno it always does; in Node it does
  when the line has reached the file before \<open>readFileSync\<close>), and that the scan finds
  the marker of that line as an Age Marker occurrence of the content (it does whenever
  the text before the line is empty or does not end in a digit). Then the file after the
  cycle is a suffix of the content read that still has this marker as an occurrence, at
  the same place of the text (\<open>k\<close> characters were cut in front of it); so the file
  holds an Age Marker after the cycle. A Node cycle whose marker line reaches the file
  only after \<open>readFileSync\<close> is not covered.
\<close>

theorem own_marker_retained:
  assumes "int currentTime > expiryTimestamp now ttl"
    and "n_stream_open v" and "n_file v = Some nf"
    and "own_marker (n_content nf) currentTime
           \<in> set (markers (n_content nf @ marker_line currentTime @ separator))"
    and "d_handle_open w" and "d_file w = Some df"
    and "own_marker (d_content df) currentTime
           \<in> set (markers (d_content df @ marker_line currentTime @ separator))"
  shows "(\<exists>k x. node_content (onInterval_node BeforeRead currentTime now ttl separator v)
                  = Some (drop k (n_content nf @ marker_line currentTime @ separator))
             \<and> x \<in> set (markers (drop k (n_content nf @ marker_line currentTime @ separator)))
             \<and> shift k x = own_marker (n_content nf) currentTime)
       \<and> (\<exists>k x. deno_content (onInterval_deno currentTime now ttl separator w)
                  = Some (drop k (d_content df @ marker_line currentTime @ separator))
             \<and> x \<in> set (markers (drop k (d_content df @ marker_line currentTime @ separator)))
             \<and> shift k x = own_marker (d_content df) currentTime)"
proof -
  have s: "int (stamp (own_marker c currentTime)) > expiryTimestamp now ttl" for c
    using assms(1) by (simp add: own_marker_def)
  from newer_marker_retained[OF assms(4) s] node_cycle_content[OF assms(2,3)]
  have n: "\<exists>k x. node_content (onInterval_node BeforeRead currentTime now ttl separator v)
                  = Some (drop k (n_content nf @ marker_line currentTime @ separator))
             \<and> x \<in> set (markers (drop k (n_content nf @ marker_line currentTime @ separator)))
             \<and> shift k x = own_marker (n_content nf) currentTime"
    by metis
  from newer_marker_retained[OF assms(7) s] deno_cycle_content[OF assms(5,6)]
  have d: "\<exists>k x. deno_content (onInterval_deno currentTime now ttl separator w)
                  = Some (drop k (d_content df @ marker_line currentTime @ separator))
             \<and> x \<in> set (markers (drop k (d_content df @ marker_line currentTime @ separator)))
             \<and> shift k x = own_marker (d_content df) currentTime"
    by metis
  from n d show ?thesis by (rule conjI)
qed

text \<open>
  The amended claim at a file holding one line, with \<open>ttl = 2\<close> and the two clock
  readings one millisecond apart (\<open>currentTime = 5000\<close>, \<open>now = 5001\<close>, cutoff 3001):
  both implementations leave the file beginning with the marker of the cycle.
\<close>

theorem own_marker_retained_witness:
  "int 5000 > expiryTimestamp 5001 (Some 2)
   \<and> n_stream_open (node_running ''a\<newline>'') \<and> d_handle_open (deno_running ''a\<newline>'')
   \<and> own_marker ''a\<newline>'' 5000 \<in> set (markers (''a\<newline>'' @ marker_line 5000 @ ''\<newline>''))
   \<and> (\<exists>k x. node_content (onInterval_node BeforeRead 5000 5001 (Some 2) ''\<newline>''
                              (node_running ''a\<newline>''))
                = Some (drop k (''a\<newline>'' @ marker_line 5000 @ ''\<newline>''))
            \<and> x \<in> set (markers (drop k (''a\<newline>'' @ marker_line 5000 @ ''\<newline>'')))
            \<and> shift k x = own_marker ''a\<newline>'' 5000)
   \<and> (\<exists>k x. deno_content (onInterval_deno 5000 5001 (Some 2) ''\<newline>''
                              (deno_running ''a\<newline>''))
                = Some (drop k (''a\<newline>'' @ marker_line 5000 @ ''\<newline>''))
            \<and> x \<in> set (markers (drop k (''a\<newline>'' @ marker_line 5000 @ ''\<newline>'')))
            \<and> shift k x = own_marker ''a\<newline>'' 5000)
   \<and> node_content (onInterval_node BeforeRead 5000 5001 (Some 2) ''\<newline>'' (node_running ''a\<newline>''))
       = Some ''---------- TIMESTAMP: 5000 ---------- \<newline>''
   \<and> deno_content (onInterval_deno 5000 5001 (Some 2) ''\<newline>'' (deno_running ''a\<newline>''))
       = Some ''---------- TIMESTAMP: 5000 ---------- \<newline>''"
proof -
  have a: "int 5000 > expiryTimestamp 5001 (Some 2)" by (simp add: expiry_5001)
  have b: "n_stream_open (node_running ''a\<newline>'')" by (simp add: node_running_def)
  have c: "n_file (node_running ''a\<newline>'') = Some \<lparr>n_content = ''a\<newline>'', n_birthtime = 0\<rparr>"
    by (simp add: node_running_def)
  have d: "d_handle_open (deno_running ''a\<newline>'')" by (simp add: deno_running_def)
  have e: "d_file (deno_running ''a\<newline>'')
      = Some \<lparr>d_content = ''a\<newline>'', d_birthtime = None, d_mtime = None\<rparr>"
    by (simp add: deno_running_def)
  have m: "own_marker ''a\<newline>'' 5000 \<in> set (markers (''a\<newline>'' @ marker_line 5000 @ ''\<newline>''))"
    by (simp only: own_marker_sample markers_one_line) simp
  have f: "own_marker (n_content \<lparr>n_content = ''a\<newline>'', n_birthtime = 0\<rparr>) 5000
      \<in> set (markers (n_content \<lparr>n_content = ''a\<newline>'', n_birthtime = 0\<rparr>
              @ marker_line 5000 @ ''\<newline>''))"
    using m by simp
  have g: "own_marker (d_content \<lparr>d_content = ''a\<newline>'', d_birthtime = None, d_mtime = None\<rparr>) 5000
      \<in> set (markers (d_content \<lparr>d_content = ''a\<newline>'', d_birthtime = None, d_mtime = None\<rparr>
              @ marker_line 5000 @ ''\<newline>''))"
    using m by simp
  have n: "node_content (onInterval_node BeforeRead 5000 5001 (Some 2) ''\<newline>'' (node_running ''a\<newline>''))
       = Some ''---------- TIMESTAMP: 5000 ---------- \<newline>''"
    using scan_one_line(1)
    by (simp add: node_content_def onInterval_node_def node_running_def Let_def expiry_5001)
  have o: "deno_content (onInterval_deno 5000 5001 (Some 2) ''\<newline>'' (deno_running ''a\<newline>''))
       = Some ''---------- TIMESTAMP: 5000 ---------- \<newline>''"
    using scan_one_line(2)
    by (simp add: deno_content_def onInterval_deno_def deno_running_def Let_def expiry_5001)
  from own_marker_retained[OF a b c f d e g] have
    "(\<exists>k x. node_content (onInterval_node BeforeRead 5000 5001 (Some 2) ''\<newline>''
                              (node_running ''a\<newline>''))
                = Some (drop k (''a\<newline>'' @ marker_line 5000 @ ''\<newline>''))
            \<and> x \<in> set (markers (drop k (''a\<newline>'' @ marker_line 5000 @ ''\<newline>'')))
            \<and> shift k x = own_marker ''a\<newline>'' 5000)
   \<and> (\<exists>k x. deno_content (onInterval_deno 5000 5001 (Some 2) ''\<newline>''
                              (deno_running ''a\<newline>''))
                = Some (drop k (''a\<newline>'' @ marker_line 5000 @ ''\<newline>''))
            \<and> x \<in> set (markers (drop k (''a\<newline>'' @ marker_line 5000 @ ''\<newline>'')))
            \<and> shift k x = own_marker ''a\<newline>'' 5000)"
    by simp
  with a b d m n o show ?thesis by blast
qed

text \<open>
  Claim C4 as stated fails at the boundary: with \<open>ttl = 60\<close> at \<open>now = 61000\<close> the
  cutoff is 1000; the file's markers are stamped 1000 and 61000, in order. The marker
  stamped 1000 is not older than the cutoff, yet neither implementation keeps it.
\<close>

theorem boundary_marker_counterexample:
  "map stamp (markers tie_log) = [1000, 61000]
   \<and> expiryTimestamp 61000 (Some 60) = 1000
   \<and> map stamp (markers (scan_node (expiryTimestamp 61000 (Some 60)) tie_log)) = [61000]
   \<and> map stamp (markers (scan_deno (expiryTimestamp 61000 (Some 60)) tie_log)) = [61000]"
  by (simp add: markers_tie expiry_values scan_tie_1000 markers_after_tie)

text \<open>
  Claim C4, as amended. Assume the Age Marker occurrences of the content read carry
  non-decreasing timestamps. After the Node scan, every occurrence left has a timestamp
  strictly greater than \<open>now - ttl * 1000\<close>; if any is left, the first one starts the
  file; and the timestamps left are exactly those strictly greater than the cutoff, in
  order, so no such marker is lost. The Deno scan writes the same text whenever some
  occurrence is newer than the cutoff.
\<close>

theorem retention_after_cycle:
  assumes "sorted (map stamp (markers content))"
  shows "(\<forall>m\<in>set (markers (scan_node (expiryTimestamp now ttl) content)).
            int (stamp m) > expiryTimestamp now ttl)
       \<and> (markers (scan_node (expiryTimestamp now ttl) content) \<noteq> [] \<longrightarrow>
            start (hd (markers (scan_node (expiryTimestamp now ttl) content))) = 0)
       \<and> map stamp (markers (scan_node (expiryTimestamp now ttl) content))
           = filter (\<lambda>t. int t > expiryTimestamp now ttl) (map stamp (markers content))
       \<and> ((\<exists>m\<in>set (markers content). int (stamp m) > expiryTimestamp now ttl) \<longrightarrow>
            scan_deno (expiryTimestamp now ttl) content
              = scan_node (expiryTimestamp now ttl) content)"
proof (cases "find (fresh (expiryTimestamp now ttl)) (markers content)")
  case None
  then have "\<not> (\<exists>m\<in>set (markers content). int (stamp m) > expiryTimestamp now ttl)"
    by (auto simp: find_None_iff fresh_def)
  with retention_none[OF None] show ?thesis by simp
next
  case (Some m)
  note r = retention_some[OF Some assms]
  have "\<forall>t\<in>set (map stamp (markers (drop (start m) content))). int t > expiryTimestamp now ttl"
    unfolding r(3) by simp
  then have "\<forall>x\<in>set (markers (drop (start m) content)). int (stamp x) > expiryTimestamp now ttl"
    by simp
  with r show ?thesis by simp
qed

text \<open>
  The amended claim at the sample file with cutoff 4000: the marker stamped 5000 is the
  only one left, it starts the file, and Deno and Node agree.
\<close>

theorem retention_after_cycle_witness:
  "sorted (map stamp (markers sample_log))
   \<and> map stamp (markers (scan_node (expiryTimestamp 6000 (Some 2)) sample_log)) = [5000]
   \<and> start (hd (markers (scan_node (expiryTimestamp 6000 (Some 2)) sample_log))) = 0
   \<and> scan_deno (expiryTimestamp 6000 (Some 2)) sample_log
       = scan_node (expiryTimestamp 6000 (Some 2)) sample_log"
proof -
  have h: "sorted (map stamp (markers sample_log))" by (simp add: markers_sample)
  have f: "filter (\<lambda>t. int t > expiryTimestamp 6000 (Some 2)) (map stamp (markers sample_log)) = [5000]"
    by (simp add: markers_sample expiry_values)
  have n: "\<exists>m\<in>set (markers sample_log). int (stamp m) > expiryTimestamp 6000 (Some 2)"
    by (simp add: markers_sample expiry_values)
  from retention_after_cycle[OF h, of 6000 "Some 2"] f n h show ?thesis
    by auto
qed

text \<open>
  Claim C5 as stated fails. Deno, on a file ending in a torn marker: the first cycle
  finds no marker newer than the cutoff and keeps everything, the second one finds its
  own marker and discards what the first kept. Node, on a file holding \<open>boot\<close> and no
  marker, when the marker of each cycle reaches the file after \<open>writeFileSync\<close>: the
  first cycle keeps \<open>boot\<close>, the second one cuts it away.
\<close>

theorem second_cycle_counterexample:
  "deno_content (onInterval_deno 2000000 2000000 (Some 2) ''\<newline>'' (deno_running torn_log))
     = Some ''boot\<newline> ---------- TIMESTAMP: 17 ---------- TIMESTAMP: 2000000 ---------- \<newline>''
   \<and> deno_content (onInterval_deno 2000000 2000000 (Some 2) ''\<newline>''
         (onInterval_deno 2000000 2000000 (Some 2) ''\<newline>'' (deno_running torn_log)))
     = Some ''---------- TIMESTAMP: 2000000 ---------- \<newline>''
   \<and> node_content (onInterval_node AfterRewrite 2000000 2000000 (Some 2) ''\<newline>''
         (node_running ''boot\<newline>''))
     = Some ''boot\<newline> ---------- TIMESTAMP: 2000000 ---------- \<newline>''
   \<and> node_content (onInterval_node AfterRewrite 2000000 2000000 (Some 2) ''\<newline>''
         (onInterval_node AfterRewrite 2000000 2000000 (Some 2) ''\<newline>''
            (node_running ''boot\<newline>'')))
     = Some ''---------- TIMESTAMP: 2000000 ---------- \<newline> ---------- TIMESTAMP: 2000000 ---------- \<newline>''"
proof -
  have s1: "scan_deno 1998000
     ''boot\<newline> ---------- TIMESTAMP: 17 ---------- TIMESTAMP: 2000000 ---------- \<newline> ---------- TIMESTAMP: 2000000 ---------- \<newline>''
     = ''---------- TIMESTAMP: 2000000 ---------- \<newline>''"
    by (simp add: text_eval)
  have s2: "scan_node 1998000 ''boot\<newline>'' = ''boot\<newline>''"
    by (simp add: text_eval)
  have s3: "scan_node 1998000 ''boot\<newline> ---------- TIMESTAMP: 2000000 ---------- \<newline>''
     = ''---------- TIMESTAMP: 2000000 ---------- \<newline>''"
    by (simp add: text_eval)
  show ?thesis
    by (simp add: deno_content_def node_content_def onInterval_deno_def onInterval_node_def
        deno_running_def node_running_def Let_def expiry_values line_2000000 torn_log_def
        scan_torn s1 s2 s3)
qed

text \<open>
  Claim C5, as amended. Two cycles at the same clock reading, each seeing its own marker
  line when it reads the file: if the content the first cycle reads has an Age Marker
  occurrence newer than the cutoff, the file after the second cycle is the file after
  the first cycle followed by the second cycle's marker line.
\<close>

theorem second_cycle_appends_marker:
  assumes "n_stream_open v" and "n_file v = Some nf" and "d_handle_open w" and "d_file w = Some df"
    and "\<exists>m\<in>set (markers (n_content nf @ marker_line now @ separator)).
           int (stamp m) > expiryTimestamp now ttl"
    and "\<exists>m\<in>set (markers (d_content df @ marker_line now @ separator)).
           int (stamp m) > expiryTimestamp now ttl"
  shows "node_content (onInterval_node BeforeRead now now ttl separator
                         (onInterval_node BeforeRead now now ttl separator v))
           = map_option (\<lambda>c. c @ marker_line now @ separator)
               (node_content (onInterval_node BeforeRead now now ttl separator v))
       \<and> deno_content (onInterval_deno now now ttl separator
                         (onInterval_deno now now ttl separator w))
           = map_option (\<lambda>c. c @ marker_line now @ separator)
               (deno_content (onInterval_deno now now ttl separator w))"
proof -
  let ?e = "expiryTimestamp now ttl"
  let ?line = "marker_line now @ separator"
  from assms(5) obtain m1 where
    f1: "find (fresh ?e) (markers (n_content nf @ ?line)) = Some m1"
    by (cases "find (fresh ?e) (markers (n_content nf @ ?line))")
      (auto simp: find_None_iff fresh_def)
  from assms(6) obtain m2 where
    f2: "find (fresh ?e) (markers (d_content df @ ?line)) = Some m2"
    by (cases "find (fresh ?e) (markers (d_content df @ ?line))")
      (auto simp: find_None_iff fresh_def)
  have n: "node_content (onInterval_node BeforeRead now now ttl separator
                         (onInterval_node BeforeRead now now ttl separator v))
           = map_option (\<lambda>c. c @ ?line)
               (node_content (onInterval_node BeforeRead now now ttl separator v))"
    using assms(1,2) second_scan(1)[OF f1, of ?line]
    by (simp add: node_content_def onInterval_node_def Let_def)
  have d: "deno_content (onInterval_deno now now ttl separator
                         (onInterval_deno now now ttl separator w))
           = map_option (\<lambda>c. c @ ?line)
               (deno_content (onInterval_deno now now ttl separator w))"
    using assms(3,4) second_scan(2)[OF f2, of ?line]
    by (simp add: deno_content_def onInterval_deno_def Let_def)
  from n d show ?thesis by simp
qed

text \<open>
  The amended claim at a file holding one line, with both cycles at \<open>now = 5000\<close> and
  \<open>ttl = 2\<close>.
\<close>

theorem second_cycle_appends_marker_witness:
  "n_stream_open (node_running ''a\<newline>'') \<and> d_handle_open (deno_running ''a\<newline>'')
   \<and> node_content (node_running ''a\<newline>'') = Some ''a\<newline>''
   \<and> deno_content (deno_running ''a\<newline>'') = Some ''a\<newline>''
   \<and> node_content (onInterval_node BeforeRead 5000 5000 (Some 2) ''\<newline>''
                       (onInterval_node BeforeRead 5000 5000 (Some 2) ''\<newline>'' (node_running ''a\<newline>'')))
       = map_option (\<lambda>c. c @ marker_line 5000 @ ''\<newline>'')
           (node_content (onInterval_node BeforeRead 5000 5000 (Some 2) ''\<newline>'' (node_running ''a\<newline>'')))
   \<and> deno_content (onInterval_deno 5000 5000 (Some 2) ''\<newline>''
                       (onInterval_deno 5000 5000 (Some 2) ''\<newline>'' (deno_running ''a\<newline>'')))
       = map_option (\<lambda>c. c @ marker_line 5000 @ ''\<newline>'')
           (deno_content (onInterval_deno 5000 5000 (Some 2) ''\<newline>'' (deno_running ''a\<newline>'')))
   \<and> deno_content (onInterval_deno 5000 5000 (Some 2) ''\<newline>'' (deno_running ''a\<newline>''))
       = Some ''---------- TIMESTAMP: 5000 ---------- \<newline>''"
proof -
  have a: "n_stream_open (node_running ''a\<newline>'')" by (simp add: node_running_def)
  have b: "n_file (node_running ''a\<newline>'') = Some \<lparr>n_content = ''a\<newline>'', n_birthtime = 0\<rparr>"
    by (simp add: node_running_def)
  have c: "d_handle_open (deno_running ''a\<newline>'')" by (simp add: deno_running_def)
  have d: "d_file (deno_running ''a\<newline>'')
      = Some \<lparr>d_content = ''a\<newline>'', d_birthtime = None, d_mtime = None\<rparr>"
    by (simp add: deno_running_def)
  have m: "markers (''a\<newline>'' @ marker_line 5000 @ ''\<newline>'') = [Occ 3 40 5000]"
    by (simp add: text_eval)
  have e: "\<exists>m\<in>set (markers (n_content \<lparr>n_content = ''a\<newline>'', n_birthtime = 0\<rparr> @ marker_line 5000 @ ''\<newline>'')).
           int (stamp m) > expiryTimestamp 5000 (Some 2)"
    using m by (simp add: expiry_values)
  have f: "\<exists>m\<in>set (markers (d_content \<lparr>d_content = ''a\<newline>'', d_birthtime = None, d_mtime = None\<rparr>
              @ marker_line 5000 @ ''\<newline>'')).
           int (stamp m) > expiryTimestamp 5000 (Some 2)"
    using m by (simp add: expiry_values)
  have s: "scan_deno 3000 (''a\<newline>'' @ marker_line 5000 @ ''\<newline>'')
      = ''---------- TIMESTAMP: 5000 ---------- \<newline>''"
    by (simp add: text_eval)
  have g: "deno_content (onInterval_deno 5000 5000 (Some 2) ''\<newline>'' (deno_running ''a\<newline>''))
       = Some ''---------- TIMESTAMP: 5000 ---------- \<newline>''"
    using s by (simp add: deno_content_def onInterval_deno_def deno_running_def Let_def expiry_values)
  from second_cycle_appends_marker[OF a b c d e f] a c g show ?thesis
    by (simp add: node_content_def deno_content_def b d)
qed

text \<open>
  Claim C6. The Age Marker wire format round-trips: for every non-negative integer \<open>n\<close>,
  the pattern run on the written marker line (whatever follows it in the file) finds the
  marker right after the leading space, with the digits of \<open>n\<close> as its group, and
  \<open>parseInt\<close> of these digits in base 10 is exactly \<open>n\<close>.
\<close>

theorem marker_round_trip:
  "exec_from 0 (marker_line n @ rest) = Some (1, re_head @ show_nat n @ re_tail, show_nat n)
   \<and> parseInt10 (show_nat n) = Some (int n)"
  using exec_marker_line[of n rest] parseInt10_digits[of "show_nat n"] show_nat_digits[of n]
  by (simp add: digits_val_show_nat)

text \<open>
  Claim C7, at a failing input of the Node implementation: a sink built with
  \<open>ttl = 60\<close> on a file holding \<open>boot\<close> and then disposed of. The stream is closed,
  but the interval is still live, and the next tick runs a maintenance cycle that
  rewrites the file.
\<close>

theorem dispose_node_keeps_interval:
  "n_interval (dispose_node (createFileLogger_node None (Some 60) ''\<newline>'' AfterRewrite 1000
      (node_fresh ''boot\<newline>'' 0)))
   \<and> \<not> n_stream_open (dispose_node (createFileLogger_node None (Some 60) ''\<newline>'' AfterRewrite 1000
      (node_fresh ''boot\<newline>'' 0)))
   \<and> node_content (dispose_node (createFileLogger_node None (Some 60) ''\<newline>'' AfterRewrite 1000
      (node_fresh ''boot\<newline>'' 0)))
       = Some ''boot\<newline> ---------- TIMESTAMP: 1000 ---------- \<newline>''
   \<and> node_content (tick_node AfterRewrite 61000 61000 (Some 60) ''\<newline>''
       (dispose_node (createFileLogger_node None (Some 60) ''\<newline>'' AfterRewrite 1000
          (node_fresh ''boot\<newline>'' 0))))
       = Some '' \<newline>''"
  by (simp add: dispose_node_def createFileLogger_node_def expire_check_node_def truthy_def
      onInterval_node_def tick_node_def node_fresh_def node_content_def Let_def
      expiry_values line_1000 scan_boot scan_after_dispose)

text \<open>
  Claim C8. Starting from an empty trace, the constructor leaves the path without a file
  exactly when \<open>expireDuration\<close> is set (truthy), a file was there before the
  construction and its age exceeds \<open>expireDuration\<close> (in Node the age since
  \<open>birthtime\<close>; in Deno since \<open>birthtime\<close>, else since \<open>mtime\<close>), or when, in Node,
  there was no file in the first place; \<open>Remove\<close> is in the trace in exactly the first
  case. The trace has at most one \<open>Stat\<close> and one \<open>Remove\<close>, none of them after an
  append, a read, a rewrite or the scheduling of the interval; and a timer tick,
  \<open>appendLog\<close> and \<open>dispose\<close> add no \<open>Stat\<close> and no \<open>Remove\<close>.
\<close>

theorem max_age_check_at_construction:
  assumes "n_trace v = []" and "d_trace w = []"
  shows "((n_file (createFileLogger_node expireDuration ttl separator landing now v) = None)
           = (case n_file v of
                None \<Rightarrow> True
              | Some f \<Rightarrow> truthy expireDuration \<and> too_old_node expireDuration now f))
       \<and> ((Remove \<in> set (n_trace (createFileLogger_node expireDuration ttl separator landing now v)))
           = (truthy expireDuration
              \<and> (case n_file v of None \<Rightarrow> False | Some f \<Rightarrow> too_old_node expireDuration now f)))
       \<and> checked_once_first
           (n_trace (createFileLogger_node expireDuration ttl separator landing now v))
       \<and> ((d_file (snd (createFileLogger_deno expireDuration ttl separator timerId now w)) = None)
           = (truthy expireDuration
              \<and> (case d_file w of None \<Rightarrow> False | Some f \<Rightarrow> too_old_deno expireDuration now f)))
       \<and> ((Remove \<in> set (d_trace (snd (createFileLogger_deno expireDuration ttl separator timerId now w))))
           = (truthy expireDuration
              \<and> (case d_file w of None \<Rightarrow> False | Some f \<Rightarrow> too_old_deno expireDuration now f)))
       \<and> checked_once_first
           (d_trace (snd (createFileLogger_deno expireDuration ttl separator timerId now w)))
       \<and> filter is_check (n_trace (tick_node l t1 t2 ttl' sep' x)) = filter is_check (n_trace x)
       \<and> filter is_check (n_trace (appendLog_node sep' lg x)) = filter is_check (n_trace x)
       \<and> filter is_check (n_trace (dispose_node x)) = filter is_check (n_trace x)
       \<and> filter is_check (d_trace (tick_deno t1 t2 ttl' sep' y)) = filter is_check (d_trace y)
       \<and> filter is_check (d_trace (appendLog_deno sep' lg y)) = filter is_check (d_trace y)
       \<and> filter is_check (d_trace (dispose_deno iid y)) = filter is_check (d_trace y)"
  using node_constructor_file[of expireDuration ttl separator landing now v]
    node_constructor_removes[OF assms(1), of expireDuration ttl separator landing now]
    node_constructor_trace[OF assms(1), of expireDuration ttl separator landing now]
    deno_constructor_file[of expireDuration ttl separator timerId now w]
    deno_constructor_removes[OF assms(2), of expireDuration ttl separator timerId now]
    deno_constructor_trace[OF assms(2), of expireDuration ttl separator timerId now]
    tick_no_check(1)[of l t1 t2 ttl' sep' x] tick_no_check(2)[of t1 t2 ttl' sep' y]
    later_operations_no_check(2)[of sep' lg x] later_operations_no_check(3)[of x]
    later_operations_no_check(5)[of sep' lg y] later_operations_no_check(6)[of iid y]
  by blast

text \<open>
  The theorem at a file created at time 0 (in Deno known by its \<open>mtime\<close> only) and a
  sink constructed two hours later with \<open>expireDuration = 3600\<close>: the file is removed.
\<close>

theorem max_age_check_at_construction_witness:
  "n_trace (node_fresh ''boot\<newline>'' 0) = []
   \<and> d_trace (deno_fresh ''boot\<newline>'' None (Some 0)) = []
   \<and> n_file (createFileLogger_node (Some 3600) (Some 60) ''\<newline>'' AfterRewrite 7200000
        (node_fresh ''boot\<newline>'' 0)) = None
   \<and> Remove \<in> set (n_trace (createFileLogger_node (Some 3600) (Some 60) ''\<newline>'' AfterRewrite 7200000
        (node_fresh ''boot\<newline>'' 0)))
   \<and> d_file (snd (createFileLogger_deno (Some 3600) (Some 60) ''\<newline>'' 1 7200000
        (deno_fresh ''boot\<newline>'' None (Some 0)))) = None
   \<and> Remove \<in> set (d_trace (snd (createFileLogger_deno (Some 3600) (Some 60) ''\<newline>'' 1 7200000
        (deno_fresh ''boot\<newline>'' None (Some 0)))))"
proof -
  have a: "n_trace (node_fresh ''boot\<newline>'' 0) = []" by (simp add: node_fresh_def)
  have b: "d_trace (deno_fresh ''boot\<newline>'' None (Some 0)) = []" by (simp add: deno_fresh_def)
  have c: "n_file (node_fresh ''boot\<newline>'' 0) = Some \<lparr>n_content = ''boot\<newline>'', n_birthtime = 0\<rparr>"
    by (simp add: node_fresh_def)
  have d: "d_file (deno_fresh ''boot\<newline>'' None (Some 0))
      = Some \<lparr>d_content = ''boot\<newline>'', d_birthtime = None, d_mtime = Some 0\<rparr>"
    by (simp add: deno_fresh_def)
  have e: "truthy (Some 3600)"
    "too_old_node (Some 3600) 7200000 \<lparr>n_content = ''boot\<newline>'', n_birthtime = 0\<rparr>"
    "too_old_deno (Some 3600) 7200000 \<lparr>d_content = ''boot\<newline>'', d_birthtime = None, d_mtime = Some 0\<rparr>"
    by (simp_all add: truthy_def too_old_node_def too_old_deno_def or_zero_def)
  from max_age_check_at_construction[OF a b, of "Some 3600" "Some 60" "''\<newline>''" AfterRewrite 7200000 1]
  show ?thesis
    by (simp add: a b c d e)
qed

text \<open>
  Claim C9. Whatever \<open>util.format\<close> and the options are, the result is the lines (the
  base string, or its split at newlines when \<open>forEachLine\<close> is set) joined by newlines,
  each line wrapped first with the static prefix, then with the call-time prefix, then,
  outermost, with the timestamp; the timestamp is computed from the one clock reading of
  the call and is the same on every line. A prefix that is absent or empty is not applied.
\<close>

theorem formatter_layers:
  "createStringifyLogger format toISOString forEachLine addPrefix addTs now call_prefix args =
     join_with [CHR 0x0A]
       (map (\<lambda>x. with_ts format toISOString addTs now
                   (with_prefix format call_prefix (with_prefix format addPrefix x)))
            (if forEachLine then split_on CHR 0x0A (format args) else [format args]))"
  by (simp add: createStringifyLogger_def with_prefix_def with_ts_def Let_def comp_def
      split: option.splits ts_mode.splits)

text \<open>
  Claim C10 as stated fails on the bytes of the file: a file holding \<open>x\<close>, the byte
  \<open>FF\<close> (which no UTF-8 text contains) and a newline has no marker, so the cycle keeps
  all of its text; but the text read has U+FFFD in the place of \<open>FF\<close>, and the file
  written back holds \<open>78 EF BF BD 0A\<close>, five bytes that are no suffix of the three
  bytes read.
\<close>

theorem invalid_utf8_counterexample:
  "rewrite_node (expiryTimestamp 5000 (Some 2)) [CHR ''x'', CHR 0xFF, CHR 0x0A]
     = [CHR ''x'', CHR 0xEF, CHR 0xBF, CHR 0xBD, CHR 0x0A]
   \<and> rewrite_deno (expiryTimestamp 5000 (Some 2)) [CHR ''x'', CHR 0xFF, CHR 0x0A]
     = [CHR ''x'', CHR 0xEF, CHR 0xBF, CHR 0xBD, CHR 0x0A]
   \<and> \<not> suffix (rewrite_node (expiryTimestamp 5000 (Some 2)) [CHR ''x'', CHR 0xFF, CHR 0x0A])
         [CHR ''x'', CHR 0xFF, CHR 0x0A]
   \<and> \<not> suffix (rewrite_deno (expiryTimestamp 5000 (Some 2)) [CHR ''x'', CHR 0xFF, CHR 0x0A])
         [CHR ''x'', CHR 0xFF, CHR 0x0A]"
  by (simp add: rewrite_node_def rewrite_deno_def decode_ff scan_ff not_suffix_ff)

text \<open>
  Claim C10, as amended. Whatever the cutoff: the text written back is a suffix of the
  text read, for every text and so for the text decoded from any bytes; the cycle only
  discards a prefix of the text and keeps every retained character in place. When the
  bytes of the file are well-formed UTF-8, the bytes written back are a suffix of the
  bytes read.
\<close>

theorem rewrite_is_suffix:
  "suffix (scan_node e content) content \<and> suffix (scan_deno e content) content
   \<and> suffix (rewrite_node e bytes) (toString bytes)
   \<and> suffix (rewrite_deno e bytes) (readTextFile bytes)
   \<and> (well_formed bytes \<longrightarrow>
        suffix (rewrite_node e bytes) bytes \<and> suffix (rewrite_deno e bytes) bytes)"
  using scan_suffix[of e content] scan_suffix[of e "toString bytes"]
    scan_suffix[of e "readTextFile bytes"] well_formed_decoded[of bytes]
  by (auto simp: rewrite_node_def rewrite_deno_def)

text \<open>
  The amended claim at a well-formed file that begins with a two-byte character and
  holds one marker, stamped 5000, read with cutoff 3000: the bytes written back are the
  bytes from the marker on.
\<close>

theorem rewrite_is_suffix_witness:
  "well_formed accented_log
   \<and> rewrite_node (expiryTimestamp 5000 (Some 2)) accented_log
       = ''---------- TIMESTAMP: 5000 ---------- \<newline>''
   \<and> rewrite_deno (expiryTimestamp 5000 (Some 2)) accented_log
       = ''---------- TIMESTAMP: 5000 ---------- \<newline>''
   \<and> suffix (rewrite_node (expiryTimestamp 5000 (Some 2)) accented_log) accented_log
   \<and> suffix (rewrite_deno (expiryTimestamp 5000 (Some 2)) accented_log) accented_log"
proof -
  note d = well_formed_decoded[OF accented_well_formed]
  from rewrite_is_suffix[of "expiryTimestamp 5000 (Some 2)" "[]" accented_log] accented_well_formed
  show ?thesis
    by (simp add: rewrite_node_def rewrite_deno_def d expiry_values scan_accented)
qed

end
